theory Spec2Isabelle
  imports Main
begin

section \<open>Segmenting an assembly listing into subroutines (subroutine.go)\<close>

text \<open>
  A listing is a list of lines; a line is a \<open>string\<close>, read as the bytes of an ASCII
  text, which is what the compiler back end emits. On such text Go's
  \<^verbatim>\<open>unicode.IsDigit\<close> is the test for \<open>0\<close>..\<open>9\<close>, ranging over a string visits one
  byte at a time, and \<^verbatim>\<open>len\<close> counts the characters.

  Every \<^verbatim>\<open>panic\<close> of the source, and every run-time panic of an index or a slice
  expression, is a value of type \<open>error\<close>; a function that can panic returns
  \<open>error + 'a\<close>.
\<close>

datatype error =
    FailedToFindLabel    \<comment> \<open>\<^verbatim>\<open>panic("Failed to find label: ...")\<close> in findLabel\<close>
  | FailedToFindRet      \<comment> \<open>\<^verbatim>\<open>panic("Failed to find 'ret' instruction")\<close> in extractEpilogue\<close>
  | LabelNotFound        \<comment> \<open>\<^verbatim>\<open>panic("label not found")\<close> in getMissingLabels\<close>
  | OutOfRange           \<comment> \<open>run-time panic: slice bounds out of range\<close>

subsection \<open>The string functions of the Go library that the source calls\<close>

text \<open>\<^verbatim>\<open>strings.HasPrefix(s, prefix)\<close>.\<close>

fun hasPrefix :: "string \<Rightarrow> string \<Rightarrow> bool" where
  "hasPrefix s [] = True"
| "hasPrefix [] (p # ps) = False"
| "hasPrefix (c # cs) (p # ps) = (c = p \<and> hasPrefix cs ps)"

text \<open>\<^verbatim>\<open>strings.Index(s, sep)\<close>: the position of the first occurrence, if any.\<close>

fun indexStr :: "string \<Rightarrow> string \<Rightarrow> nat option" where
  "indexStr [] sep = (if sep = [] then Some 0 else None)"
| "indexStr (c # cs) sep =
     (if hasPrefix (c # cs) sep then Some 0 else map_option Suc (indexStr cs sep))"

text \<open>\<^verbatim>\<open>strings.Contains(s, sep)\<close>.\<close>

definition containsStr :: "string \<Rightarrow> string \<Rightarrow> bool" where
  "containsStr s sep = (indexStr s sep \<noteq> None)"

text \<open>
  \<^verbatim>\<open>strings.Split(s, sep)[1]\<close> for a non-empty separator that occurs in \<open>s\<close>: the
  text after the first occurrence, up to the next occurrence or to the end.
\<close>

definition splitSecond :: "string \<Rightarrow> string \<Rightarrow> string" where
  "splitSecond s sep =
     (case indexStr s sep of
        None \<Rightarrow> []
      | Some i \<Rightarrow>
          (let rest = drop (i + length sep) s
           in case indexStr rest sep of None \<Rightarrow> rest | Some j \<Rightarrow> take j rest))"

text \<open>White space as \<^verbatim>\<open>strings.TrimSpace\<close> sees it in ASCII: tab, LF, VT, FF, CR, space.\<close>

definition isSpace :: "char \<Rightarrow> bool" where
  "isSpace c = (c \<in> set [CHR 0x09, CHR 0x0A, CHR 0x0B, CHR 0x0C, CHR 0x0D, CHR '' ''])"

definition trimSpace :: "string \<Rightarrow> string" where
  "trimSpace s = rev (dropWhile isSpace (rev (dropWhile isSpace s)))"

text \<open>The class \<^verbatim>\<open>\s\<close> of Go's regular expressions: tab, LF, FF, CR, space.\<close>

definition isSpaceRe :: "char \<Rightarrow> bool" where
  "isSpaceRe c = (c \<in> set [CHR 0x09, CHR 0x0A, CHR 0x0C, CHR 0x0D, CHR '' ''])"

text \<open>
  \<^verbatim>\<open>len(regexpRet.FindStringSubmatch(line)) > 0\<close> with
  \<^verbatim>\<open>regexpRet = regexp.MustCompile(`^\s*ret`)\<close>: after the leading white space the
  line goes on with \<open>ret\<close>.
\<close>

definition isRet :: "string \<Rightarrow> bool" where
  "isRet line = hasPrefix (dropWhile isSpaceRe line) ''ret''"

text \<open>\<^verbatim>\<open>unicode.IsDigit\<close> on ASCII, and the value of a digit: its code less that of \<open>0\<close>.\<close>

definition isDigit :: "char \<Rightarrow> bool" where
  "isDigit c = (c \<in> set ''0123456789'')"

definition digitVal :: "char \<Rightarrow> nat" where
  "digitVal c = of_char c - 48"

text \<open>
  \<^verbatim>\<open>strconv.Atoi\<close> on a string of digits, its error dropped as the source drops it:
  the empty string gives 0. The value is not clamped at the largest \<^verbatim>\<open>int\<close> here; the
  only caller adds it to an offset and slices a string with the sum, which panics for
  the true value and for the clamped one alike.
\<close>

definition atoi :: "string \<Rightarrow> nat" where
  "atoi ds = foldl (\<lambda>n c. 10 * n + digitVal c) 0 ds"

text \<open>Go's slice expression \<^verbatim>\<open>s[a:b]\<close> on a string or on a listing whose capacity is
  its length: it panics unless \<open>a \<le> b \<le> len(s)\<close>.\<close>

definition slice :: "'a list \<Rightarrow> nat \<Rightarrow> nat \<Rightarrow> error + 'a list" where
  "slice xs a b = (if a \<le> b \<and> b \<le> length xs then Inr (take (b - a) (drop a xs)) else Inl OutOfRange)"

subsection \<open>The symbol name decoder\<close>

text \<open>
  \<^verbatim>\<open>extractNamePart\<close>: count the leading digits, read them as the length, and return
  the number of characters consumed with the part that follows the digits.
\<close>

definition extractNamePart :: "string \<Rightarrow> error + (nat \<times> string)" where
  "extractNamePart part =
     (let digits = length (takeWhile isDigit part);
          len = atoi (take digits part)
      in case slice part digits (digits + len) of
           Inl e \<Rightarrow> Inl e
         | Inr p \<Rightarrow> Inr (digits + len, p))"

text \<open>
  The inner loop of \<^verbatim>\<open>extractName\<close>, on the rest \<^verbatim>\<open>name[index:]\<close> of the token:
  \<^verbatim>\<open>for index < len(name) { size, part := extractNamePart(name[index:]); if size == 0 { break }; ... }\<close>
\<close>

function decodeParts :: "string \<Rightarrow> error + string list" where
  "decodeParts s =
     (if s = [] then Inr []
      else case extractNamePart s of
             Inl e \<Rightarrow> Inl e
           | Inr (sz, part) \<Rightarrow>
               if sz = 0 then Inr []
               else (case decodeParts (drop sz s) of
                       Inl e \<Rightarrow> Inl e
                     | Inr parts \<Rightarrow> Inr (part # parts)))"
  by pat_completeness auto
termination
  by (relation "measure length") auto

declare decodeParts.simps [simp del]

text \<open>
  \<^verbatim>\<open>extractName\<close>: the outer loop looks for the first digit of the token, the inner
  loop decodes from there, and the parts are joined.
\<close>

definition extractName :: "string \<Rightarrow> error + string" where
  "extractName name =
     (case decodeParts (dropWhile (\<lambda>ch. \<not> isDigit ch) name) of
        Inl e \<Rightarrow> Inl e
      | Inr parts \<Rightarrow> Inr (concat parts))"

subsection \<open>Data\<close>

text \<open>\<^verbatim>\<open>type Global struct { dotGlobalLine int; globalName string; globalLabelLine int }\<close>\<close>

record Global =
  dotGlobalLine :: nat
  globalName :: string
  globalLabelLine :: nat

text \<open>
  Modelled from the spec: the type \<^verbatim>\<open>Epilogue\<close> is declared in another file of the
  repository. The source here reads and writes its fields \<^verbatim>\<open>Start\<close> and \<^verbatim>\<open>End\<close>
  (section 3 of the design: a range \<open>{start, end}\<close> relative to the body); whatever
  else it records is the field \<open>details\<close>, of an arbitrary type.
\<close>

record 'e Epilogue =
  Start :: int
  End :: int
  details :: 'e

text \<open>\<^verbatim>\<open>type Subroutine struct { name string; body []string; epilogue Epilogue }\<close>\<close>

record 'e Subroutine =
  name :: string
  body :: "string list"
  epilogue :: "'e Epilogue"

subsection \<open>The line classifiers, which live outside this file\<close>

text \<open>
  Modelled from the spec: \<^verbatim>\<open>stripComments\<close>, \<^verbatim>\<open>fixLabels\<close>, \<^verbatim>\<open>upperCaseJumps\<close>,
  \<^verbatim>\<open>isEpilogueInstruction\<close>, \<^verbatim>\<open>extractEpilogueInfo\<close> and the method
  \<^verbatim>\<open>IsPrologueInstruction\<close> are defined in other files of the repository. The design
  (sections 4.4 and 6) gives them as capabilities with a contract, so they are
  parameters of the model, collected in one record. Each field returns what the
  source uses of the result:
  \<^item> \<open>stripComments line\<close> is the cleaned line and whether the line is comment-only;
  \<^item> \<open>fixLabels line\<close> is the label the line defines, empty if none (the normalised
    line, first component in Go, is dropped at every call);
  \<^item> \<open>upperCaseJumps line\<close> is the upper-case mnemonic and the target label of a jump,
    both empty if the line is no jump (the normalised line is dropped likewise);
  \<^item> \<open>isEpilogueInstruction line\<close> and \<open>isPrologueInstruction epilogue line\<close> are the
    two instruction-shape predicates;
  \<^item> \<open>epilogueDetails src start end\<close> is what \<^verbatim>\<open>extractEpilogueInfo\<close> records besides
    the range.
  The package variable \<^verbatim>\<open>disabledForTesting\<close>, which a test may set, is a field as well.
\<close>

record 'e classifier =
  stripComments :: "string \<Rightarrow> string \<times> bool"
  fixLabels :: "string \<Rightarrow> string"
  upperCaseJumps :: "string \<Rightarrow> string \<times> string"
  isEpilogueInstruction :: "string \<Rightarrow> bool"
  isPrologueInstruction :: "'e Epilogue \<Rightarrow> string \<Rightarrow> bool"
  epilogueDetails :: "string list \<Rightarrow> int \<Rightarrow> int \<Rightarrow> 'e"
  disabledForTesting :: bool

text \<open>
  Modelled from the spec: \<^verbatim>\<open>extractEpilogueInfo(src, start, end)\<close>, absent from this
  file, returns the epilogue with the range it is given (section 3: \<open>end\<close> exclusive,
  one past the return).
\<close>

definition extractEpilogueInfo :: "'e classifier \<Rightarrow> string list \<Rightarrow> int \<Rightarrow> int \<Rightarrow> 'e Epilogue" where
  "extractEpilogueInfo cls src epilogueStart epilogueEnd =
     \<lparr>Start = epilogueStart, End = epilogueEnd, details = epilogueDetails cls src epilogueStart epilogueEnd\<rparr>"

subsection \<open>Scanning for the globals\<close>

text \<open>A \<^verbatim>\<open>for index, line := range lines\<close> loop that stops at the first line with a
  property: the index of that line.\<close>

fun findFirst :: "('a \<Rightarrow> bool) \<Rightarrow> 'a list \<Rightarrow> nat option" where
  "findFirst P [] = None"
| "findFirst P (x # xs) = (if P x then Some 0 else map_option Suc (findFirst P xs))"

text \<open>\<^verbatim>\<open>findLabel\<close>: the first line of the listing that starts with \<open>label:\<close>, or a panic.\<close>

definition findLabel :: "string list \<Rightarrow> string \<Rightarrow> error + nat" where
  "findLabel lines label =
     (let labelDef = label @ '':''
      in case findFirst (\<lambda>line. hasPrefix line labelDef) lines of
           Some index \<Rightarrow> Inr index
         | None \<Rightarrow> Inl FailedToFindLabel)"

text \<open>
  \<^verbatim>\<open>splitOnGlobals\<close>: the loop over the lines, at line \<open>index\<close> with the lines
  \<open>rest\<close> still to visit; \<open>lines\<close> is the whole listing, which \<^verbatim>\<open>findLabel\<close> searches.
\<close>

fun splitOnGlobalsFrom :: "string list \<Rightarrow> nat \<Rightarrow> string list \<Rightarrow> error + Global list" where
  "splitOnGlobalsFrom lines index [] = Inr []"
| "splitOnGlobalsFrom lines index (line # rest) =
     (if containsStr line ''.globl'' then
        (let scrambled = trimSpace (splitSecond line ''.globl'')
         in case extractName scrambled of
              Inl e \<Rightarrow> Inl e
            | Inr nm \<Rightarrow>
                (case findLabel lines scrambled of
                   Inl e \<Rightarrow> Inl e
                 | Inr labelLine \<Rightarrow>
                     (case splitOnGlobalsFrom lines (Suc index) rest of
                        Inl e \<Rightarrow> Inl e
                      | Inr result \<Rightarrow>
                          Inr (\<lparr>dotGlobalLine = index, globalName = nm, globalLabelLine = labelLine\<rparr>
                               # result))))
      else splitOnGlobalsFrom lines (Suc index) rest)"

definition splitOnGlobals :: "string list \<Rightarrow> error + Global list" where
  "splitOnGlobals lines = splitOnGlobalsFrom lines 0 lines"

subsection \<open>Missing labels and the lines that close the body\<close>

text \<open>
  The first loop of \<^verbatim>\<open>getMissingLabels\<close>: the labels defined (\<open>labelMap\<close>) and the
  labels jumped to (\<open>jumpMap\<close>) on the lines, each line stripped of its comment first.
  The two Go maps only ever hold \<^verbatim>\<open>true\<close>, so they are sets.
\<close>

fun collectLabels :: "'e classifier \<Rightarrow> string list \<Rightarrow> string set \<times> string set" where
  "collectLabels cls [] = ({}, {})"
| "collectLabels cls (line # rest) =
     (let stripped = fst (stripComments cls line);
          label = fixLabels cls stripped;
          target = snd (upperCaseJumps cls stripped);
          (labelMap, jumpMap) = collectLabels cls rest
      in (if label \<noteq> [] then insert label labelMap else labelMap,
          if target \<noteq> [] then insert target jumpMap else jumpMap))"

text \<open>
  \<^verbatim>\<open>getMissingLabels\<close>: the second loop deletes every defined label from the jump map
  and panics at a defined label that is not in it; what is left are the jump targets
  with no definition.
\<close>

definition getMissingLabels :: "'e classifier \<Rightarrow> string list \<Rightarrow> error + string set" where
  "getMissingLabels cls src =
     (let (labelMap, jumpMap) = collectLabels cls src
      in if labelMap \<subseteq> jumpMap then Inr (jumpMap - labelMap) else Inl LabelNotFound)"

text \<open>
  The first loop of \<^verbatim>\<open>getMissingLines\<close>:
  \<^verbatim>\<open>for iline = lineRet; len(missingLabels) > 0 && iline < len(src); iline++\<close>;
  the value is \<open>iline\<close> when the loop ends.
\<close>

function findMissing :: "'e classifier \<Rightarrow> string list \<Rightarrow> nat \<Rightarrow> string set \<Rightarrow> nat" where
  "findMissing cls src iline missingLabels =
     (if missingLabels \<noteq> {} \<and> iline < length src then
        (let label = fixLabels cls (src ! iline)
         in findMissing cls src (Suc iline)
              (if label \<noteq> [] \<and> label \<in> missingLabels then missingLabels - {label}
               else missingLabels))
      else iline)"
  by pat_completeness auto
termination
  by (relation "measure (\<lambda>(cls, src, iline, missingLabels). length src - iline)") auto

declare findMissing.simps [simp del]

text \<open>
  The second loop: \<^verbatim>\<open>for ; iline < len(src); iline++\<close>, left at the first line whose
  mnemonic is \<open>JMP\<close>.
\<close>

function findJMP :: "'e classifier \<Rightarrow> string list \<Rightarrow> nat \<Rightarrow> nat" where
  "findJMP cls src iline =
     (if iline < length src then
        (if fst (upperCaseJumps cls (src ! iline)) = ''JMP'' then iline
         else findJMP cls src (Suc iline))
      else iline)"
  by pat_completeness auto
termination
  by (relation "measure (\<lambda>(cls, src, iline). length src - iline)") auto

declare findJMP.simps [simp del]

text \<open>\<^verbatim>\<open>getMissingLines\<close> returns \<^verbatim>\<open>iline - lineRet\<close>.\<close>

definition getMissingLines :: "'e classifier \<Rightarrow> string list \<Rightarrow> nat \<Rightarrow> string set \<Rightarrow> nat" where
  "getMissingLines cls src lineRet missingLabels =
     findJMP cls src (findMissing cls src lineRet missingLabels) - lineRet"

text \<open>Both scans only move forward, and the first one moves when a label is missing.\<close>

lemma findMissing_ge: "iline \<le> findMissing cls src iline missingLabels"
proof (induction cls src iline missingLabels rule: findMissing.induct)
  case (1 cls src iline missingLabels)
  show ?case
  proof (cases "missingLabels \<noteq> {} \<and> iline < length src")
    case True
    with "1.IH" [OF True refl]
    have "Suc iline \<le> findMissing cls src iline missingLabels"
      by (subst findMissing.simps) (simp add: Let_def)
    then show ?thesis by simp
  next
    case False
    then show ?thesis by (subst findMissing.simps) auto
  qed
qed

lemma findMissing_gt:
  assumes "missingLabels \<noteq> {}" and "iline < length src"
  shows "iline < findMissing cls src iline missingLabels"
proof -
  let ?m = "if fixLabels cls (src ! iline) \<noteq> [] \<and> fixLabels cls (src ! iline) \<in> missingLabels
            then missingLabels - {fixLabels cls (src ! iline)} else missingLabels"
  have "findMissing cls src iline missingLabels = findMissing cls src (Suc iline) ?m"
    using assms by (subst findMissing.simps) (simp add: Let_def)
  moreover have "Suc iline \<le> findMissing cls src (Suc iline) ?m"
    by (rule findMissing_ge)
  ultimately show ?thesis by simp
qed

lemma findJMP_ge: "iline \<le> findJMP cls src iline"
proof (induction cls src iline rule: findJMP.induct)
  case (1 cls src iline)
  show ?case
  proof (cases "iline < length src \<and> fst (upperCaseJumps cls (src ! iline)) \<noteq> ''JMP''")
    case True
    then have "Suc iline \<le> findJMP cls src (Suc iline)"
      using "1.IH" by simp
    with True show ?thesis by (subst findJMP.simps) simp
  next
    case False
    then show ?thesis by (subst findJMP.simps) auto
  qed
qed

lemma getMissingLines_pos:
  assumes "missingLabels \<noteq> {}" and "lineRet < length src"
  shows "0 < getMissingLines cls src lineRet missingLabels"
proof -
  have "lineRet < findMissing cls src lineRet missingLabels"
    using assms by (rule findMissing_gt)
  also have "\<dots> \<le> findJMP cls src (findMissing cls src lineRet missingLabels)"
    by (rule findJMP_ge)
  finally show ?thesis by (simp add: getMissingLines_def)
qed

lemma getMissingLabels_Nil: "getMissingLabels cls [] = Inr {}"
  by (simp add: getMissingLabels_def)

lemma slice_Inr:
  "slice xs a b = Inr ys \<Longrightarrow> a \<le> b \<and> b \<le> length xs \<and> ys = take (b - a) (drop a xs)"
  by (simp add: slice_def split: if_splits)

subsection \<open>Extracting one subroutine\<close>

text \<open>
  The loop of \<^verbatim>\<open>extractSubroutine\<close>, \<^verbatim>\<open>for !disabledForTesting { ... }\<close>, when the
  flag is off: from the current \<open>bodyEnd\<close> to the one the loop ends with.
  \<^verbatim>\<open>src[bodyStart:bodyEnd]\<close> panics when the bounds are out of order or past the
  listing. \<open>bodyEnd - 1\<close> is only computed when the window has a missing label, and
  then the window is not empty and \<open>bodyEnd\<close> is positive.
\<close>

function resolveBodyEnd :: "'e classifier \<Rightarrow> string list \<Rightarrow> nat \<Rightarrow> nat \<Rightarrow> error + nat" where
  "resolveBodyEnd cls src bodyStart bodyEnd =
     (case slice src bodyStart bodyEnd of
        Inl e \<Rightarrow> Inl e
      | Inr window \<Rightarrow>
          (case getMissingLabels cls window of
             Inl e \<Rightarrow> Inl e
           | Inr missingLabels \<Rightarrow>
               if missingLabels = {} then Inr bodyEnd
               else resolveBodyEnd cls src bodyStart
                      (bodyEnd + getMissingLines cls src (bodyEnd - 1) missingLabels)))"
  by pat_completeness auto
termination
proof (relation "measure (\<lambda>(cls, src, bodyStart, bodyEnd). Suc (length src) - bodyEnd)")
  show "wf (measure (\<lambda>(cls, src, bodyStart, bodyEnd). Suc (length src) - bodyEnd))"
    by simp
next
  fix cls :: "'e classifier" and src bodyStart bodyEnd window missingLabels
  assume sl: "slice src bodyStart bodyEnd = Inr window"
    and ml: "getMissingLabels cls window = Inr missingLabels"
    and ne: "missingLabels \<noteq> {}"
  from sl have bounds: "bodyStart \<le> bodyEnd" "bodyEnd \<le> length src"
    and w: "window = take (bodyEnd - bodyStart) (drop bodyStart src)"
    by (auto dest: slice_Inr)
  have "window \<noteq> []"
    using ml ne by (auto simp: getMissingLabels_Nil)
  with w bounds have "0 < bodyEnd" by (cases bodyEnd) auto
  with bounds have "bodyEnd - 1 < length src" by simp
  with ne have "0 < getMissingLines cls src (bodyEnd - 1) missingLabels"
    by (rule getMissingLines_pos)
  with bounds
  show "((cls, src, bodyStart, bodyEnd + getMissingLines cls src (bodyEnd - 1) missingLabels),
         (cls, src, bodyStart, bodyEnd))
        \<in> measure (\<lambda>(cls, src, bodyStart, bodyEnd). Suc (length src) - bodyEnd)"
    by simp
qed

declare resolveBodyEnd.simps [simp del]

text \<open>
  The backward loop of \<^verbatim>\<open>extractEpilogue\<close>,
  \<^verbatim>\<open>for ; epilogueStart >= 0; epilogueStart-- { if !isEpilogueInstruction(src[epilogueStart]) { epilogueStart++; break } }\<close>:
  the value of \<open>epilogueStart\<close> after it, which is \<open>-1\<close> when the loop runs past line 0.
\<close>

fun epilogueStartFrom :: "'e classifier \<Rightarrow> string list \<Rightarrow> nat \<Rightarrow> int" where
  "epilogueStartFrom cls src 0 =
     (if \<not> isEpilogueInstruction cls (src ! 0) then 1 else - 1)"
| "epilogueStartFrom cls src (Suc n) =
     (if \<not> isEpilogueInstruction cls (src ! Suc n) then int (Suc n) + 1
      else epilogueStartFrom cls src n)"

text \<open>\<^verbatim>\<open>extractEpilogue\<close>: at the first return instruction of the body, or a panic.\<close>

definition extractEpilogue :: "'e classifier \<Rightarrow> string list \<Rightarrow> error + 'e Epilogue" where
  "extractEpilogue cls src =
     (case findFirst isRet src of
        None \<Rightarrow> Inl FailedToFindRet
      | Some iline \<Rightarrow>
          Inr (extractEpilogueInfo cls src (epilogueStartFrom cls src iline) (int iline + 1)))"

text \<open>
  \<^verbatim>\<open>getPrologueLines\<close>: the loop breaks at the first line that is neither
  comment-only nor a prologue instruction, and the function returns the loop index:
  the index of that line, or of the last line when the loop never breaks, or 0 on no
  lines at all.
\<close>

definition getPrologueLines :: "'e classifier \<Rightarrow> string list \<Rightarrow> 'e Epilogue \<Rightarrow> nat" where
  "getPrologueLines cls lines epi =
     (case findFirst (\<lambda>line. let (stripped, skip) = stripComments cls line
                             in \<not> skip \<and> \<not> isPrologueInstruction cls epi stripped) lines of
        Some index \<Rightarrow> index
      | None \<Rightarrow> length lines - 1)"

text \<open>\<^verbatim>\<open>removePrologueLines\<close>; \<^verbatim>\<open>s.body[prologueLines:]\<close> is the slice up to the length.\<close>

definition removePrologueLines ::
  "'e classifier \<Rightarrow> 'e Subroutine \<Rightarrow> string list \<Rightarrow> nat \<Rightarrow> nat \<Rightarrow> error + 'e Subroutine" where
  "removePrologueLines cls s src bodyStart bodyEnd =
     (case slice src bodyStart bodyEnd of
        Inl e \<Rightarrow> Inl e
      | Inr window \<Rightarrow>
          (let prologueLines = getPrologueLines cls window (epilogue s)
           in case slice (body s) prologueLines (length (body s)) of
                Inl e \<Rightarrow> Inl e
              | Inr rest \<Rightarrow>
                  Inr (s\<lparr>body := rest,
                         epilogue := (epilogue s)
                           \<lparr>Start := Start (epilogue s) - int prologueLines,
                            End := End (epilogue s) - int prologueLines\<rparr>\<rparr>)))"

text \<open>\<^verbatim>\<open>extractSubroutine\<close>.\<close>

definition extractSubroutine ::
  "'e classifier \<Rightarrow> nat \<Rightarrow> string list \<Rightarrow> Global \<Rightarrow> error + 'e Subroutine" where
  "extractSubroutine cls lineRet src global =
     (let bodyStart = globalLabelLine global + 1
      in case (if disabledForTesting cls then Inr (lineRet + 1)
               else resolveBodyEnd cls src bodyStart (lineRet + 1)) of
           Inl e \<Rightarrow> Inl e
         | Inr bodyEnd \<Rightarrow>
             (case slice src bodyStart bodyEnd of
                Inl e \<Rightarrow> Inl e
              | Inr window \<Rightarrow>
                  (case extractEpilogue cls window of
                     Inl e \<Rightarrow> Inl e
                   | Inr epi \<Rightarrow>
                       removePrologueLines cls
                         \<lparr>name = globalName global, body = window, epilogue = epi\<rparr>
                         src bodyStart bodyEnd)))"

subsection \<open>Segmenting the listing\<close>

text \<open>
  The search for the return instruction in \<^verbatim>\<open>segmentSource\<close>,
  \<^verbatim>\<open>for lineRet := splitBegin; lineRet < splitEnd; lineRet++\<close>: the first line of the
  region that matches \<^verbatim>\<open>regexpRet\<close>. The callers pass a \<open>splitEnd\<close> within the listing.
\<close>

function findRet :: "string list \<Rightarrow> nat \<Rightarrow> nat \<Rightarrow> nat option" where
  "findRet src lineRet splitEnd =
     (if lineRet < splitEnd then
        (if isRet (src ! lineRet) then Some lineRet else findRet src (Suc lineRet) splitEnd)
      else None)"
  by pat_completeness auto
termination
  by (relation "measure (\<lambda>(src, lineRet, splitEnd). splitEnd - lineRet)") auto

declare findRet.simps [simp del]

text \<open>
  The loop of \<^verbatim>\<open>segmentSource\<close> over the globals, \<open>splitBegin\<close> being the start of
  the current region. A region without a return instruction adds nothing.
\<close>

fun segmentLoop ::
  "'e classifier \<Rightarrow> string list \<Rightarrow> nat \<Rightarrow> Global list \<Rightarrow> error + 'e Subroutine list" where
  "segmentLoop cls src splitBegin [] = Inr []"
| "segmentLoop cls src splitBegin (global # globals) =
     (let splitEnd = (case globals of [] \<Rightarrow> length src | next # _ \<Rightarrow> dotGlobalLine next)
      in case findRet src splitBegin splitEnd of
           None \<Rightarrow> segmentLoop cls src splitEnd globals
         | Some lineRet \<Rightarrow>
             (case extractSubroutine cls lineRet src global of
                Inl e \<Rightarrow> Inl e
              | Inr newsub \<Rightarrow>
                  (case segmentLoop cls src splitEnd globals of
                     Inl e \<Rightarrow> Inl e
                   | Inr subroutines \<Rightarrow> Inr (newsub # subroutines))))"

definition segmentSource :: "'e classifier \<Rightarrow> string list \<Rightarrow> error + 'e Subroutine list" where
  "segmentSource cls src =
     (case splitOnGlobals src of
        Inl e \<Rightarrow> Inl e
      | Inr globals \<Rightarrow>
          (case globals of
             [] \<Rightarrow> Inr []
           | first # _ \<Rightarrow> segmentLoop cls src (dotGlobalLine first) globals))"

subsection \<open>A classifier to run the model with\<close>

text \<open>
  An instance of the classifiers, for evaluating the functions above on concrete
  listings: a comment starts at \<open>#\<close>; a label definition is a line that starts with
  \<open>L\<close> and holds a colon, the label being the text before the colon; a jump is \<open>jmp\<close>
  (mnemonic \<open>JMP\<close>) or \<open>jne\<close> (mnemonic \<open>JNE\<close>) followed by its target; a line that
  starts with \<open>pop\<close> and a return instruction are epilogue instructions, and a line
  that starts with \<open>push\<close> is a prologue instruction.
\<close>

definition sampleJump :: "string \<Rightarrow> string \<times> string" where
  "sampleJump line =
     (let t = trimSpace line
      in if hasPrefix t ''jmp '' then (''JMP'', trimSpace (drop 4 t))
         else if hasPrefix t ''jne '' then (''JNE'', trimSpace (drop 4 t))
         else ([], []))"

definition sampleLabel :: "string \<Rightarrow> string" where
  "sampleLabel line =
     (if hasPrefix line ''L'' \<and> CHR '':'' \<in> set line then takeWhile (\<lambda>c. c \<noteq> CHR '':'') line
      else [])"

definition sampleStrip :: "string \<Rightarrow> string \<times> bool" where
  "sampleStrip line =
     (let t = takeWhile (\<lambda>c. c \<noteq> CHR ''#'') line
      in if trimSpace t = [] then ([], True) else (t, False))"

definition sampleClassifier :: "unit classifier" where
  "sampleClassifier =
     \<lparr>stripComments = sampleStrip,
      fixLabels = sampleLabel,
      upperCaseJumps = sampleJump,
      isEpilogueInstruction = (\<lambda>line. hasPrefix line ''pop'' \<or> isRet line),
      isPrologueInstruction = (\<lambda>epi line. hasPrefix line ''push''),
      epilogueDetails = (\<lambda>src s e. ()),
      disabledForTesting = False\<rparr>"

section \<open>Notions for the statements\<close>

text \<open>
  What the properties below speak of: the encoding that the decoder inverts, the region
  of a global, the labels and jump targets of a window, the values of \<open>bodyEnd\<close> in the
  closure loop; and, under names that start with \<open>spec\<close>, two notions worded as the
  design words them, to set against what the code computes.
\<close>

text \<open>The decimal numeral of a number, most significant digit first.\<close>

definition digitChar :: "nat \<Rightarrow> char" where
  "digitChar d = ''0123456789'' ! d"

fun decimal :: "nat \<Rightarrow> string" where
  "decimal n = (if n < 10 then [digitChar n] else decimal (n div 10) @ [digitChar (n mod 10)])"

declare decimal.simps [simp del]

text \<open>
  The token of the design's round-trip property: for each fragment in turn, its decimal
  length followed by the fragment itself.
\<close>

fun spec_encode :: "string list \<Rightarrow> string" where
  "spec_encode [] = []"
| "spec_encode (f # fs) = decimal (length f) @ f @ spec_encode fs"

text \<open>A fragment that begins with a digit.\<close>

definition startsWithDigit :: "string \<Rightarrow> bool" where
  "startsWithDigit f = (case f of [] \<Rightarrow> False | c # cs \<Rightarrow> isDigit c)"

text \<open>
  The region of a global runs from its directive line to the directive line of the
  next global, or to the end of the listing; \<open>regionEnd src globals\<close> is the end of the
  region of a global that \<open>globals\<close> follow.
\<close>

definition regionEnd :: "string list \<Rightarrow> Global list \<Rightarrow> nat" where
  "regionEnd src globals = (case globals of [] \<Rightarrow> length src | g # _ \<Rightarrow> dotGlobalLine g)"

text \<open>Every global has a return instruction in its region.\<close>

fun allHaveRet :: "string list \<Rightarrow> Global list \<Rightarrow> bool" where
  "allHaveRet src [] = True"
| "allHaveRet src (g # globals) =
     ((\<exists>k\<in>{dotGlobalLine g ..< regionEnd src globals}. isRet (src ! k)) \<and> allHaveRet src globals)"

text \<open>
  The globals that have a return instruction in their region, each with the line of
  the first one, in the order of the globals.
\<close>

fun retLines :: "string list \<Rightarrow> Global list \<Rightarrow> (nat \<times> Global) list" where
  "retLines src [] = []"
| "retLines src (g # globals) =
     (case findRet src (dotGlobalLine g) (regionEnd src globals) of
        None \<Rightarrow> retLines src globals
      | Some lineRet \<Rightarrow> (lineRet, g) # retLines src globals)"

text \<open>Extracting a subroutine for each pair in turn, stopping at the first panic.\<close>

fun extractAll ::
  "'e classifier \<Rightarrow> string list \<Rightarrow> (nat \<times> Global) list \<Rightarrow> error + 'e Subroutine list" where
  "extractAll cls src [] = Inr []"
| "extractAll cls src ((lineRet, g) # rest) =
     (case extractSubroutine cls lineRet src g of
        Inl e \<Rightarrow> Inl e
      | Inr s \<Rightarrow>
          (case extractAll cls src rest of
             Inl e \<Rightarrow> Inl e
           | Inr subroutines \<Rightarrow> Inr (s # subroutines)))"

text \<open>The operand of the directive on a line: the \<open>scrambled\<close> of \<^verbatim>\<open>splitOnGlobals\<close>.\<close>

definition scrambledOf :: "string \<Rightarrow> string" where
  "scrambledOf line = trimSpace (splitSecond line ''.globl'')"

text \<open>
  The label line as the design words it: the first line at or after the directive line
  whose trimmed text begins with the decoded name followed by a colon.
\<close>

definition spec_labelLine :: "string list \<Rightarrow> nat \<Rightarrow> string \<Rightarrow> nat option" where
  "spec_labelLine lines directiveLine nm =
     map_option (\<lambda>i. directiveLine + i)
       (findFirst (\<lambda>line. hasPrefix (trimSpace line) (nm @ '':'')) (drop directiveLine lines))"

text \<open>
  The label a line defines and the label a line jumps to, as \<^verbatim>\<open>getMissingLabels\<close>
  reads them: on the line stripped of its comment. Empty when there is none.
\<close>

definition labelOf :: "'e classifier \<Rightarrow> string \<Rightarrow> string" where
  "labelOf cls line = fixLabels cls (fst (stripComments cls line))"

definition targetOf :: "'e classifier \<Rightarrow> string \<Rightarrow> string" where
  "targetOf cls line = snd (upperCaseJumps cls (fst (stripComments cls line)))"

text \<open>The labels defined on some line of a window, and the labels jumped to from some line.\<close>

definition definedLabels :: "'e classifier \<Rightarrow> string list \<Rightarrow> string set" where
  "definedLabels cls window = set (filter (\<lambda>l. l \<noteq> []) (map (labelOf cls) window))"

definition jumpTargets :: "'e classifier \<Rightarrow> string list \<Rightarrow> string set" where
  "jumpTargets cls window = set (filter (\<lambda>l. l \<noteq> []) (map (targetOf cls) window))"

text \<open>
  The values that \<open>bodyEnd\<close> takes in the loop of \<^verbatim>\<open>extractSubroutine\<close>, started at
  \<open>bodyEnd0\<close>: each one whose window has missing labels is followed by the next.
\<close>

inductive candidateEnd :: "'e classifier \<Rightarrow> string list \<Rightarrow> nat \<Rightarrow> nat \<Rightarrow> nat \<Rightarrow> bool"
  for cls src bodyStart bodyEnd0 where
    first: "candidateEnd cls src bodyStart bodyEnd0 bodyEnd0"
  | extend: "candidateEnd cls src bodyStart bodyEnd0 bodyEnd \<Longrightarrow>
             slice src bodyStart bodyEnd = Inr window \<Longrightarrow>
             getMissingLabels cls window = Inr missingLabels \<Longrightarrow>
             missingLabels \<noteq> {} \<Longrightarrow>
             candidateEnd cls src bodyStart bodyEnd0
               (bodyEnd + getMissingLines cls src (bodyEnd - 1) missingLabels)"

text \<open>
  The labels that the forward scan of \<^verbatim>\<open>getMissingLines\<close> meets on the lines from \<open>a\<close>
  up to, not including, \<open>b\<close>. The scan reads a line as it stands, comment and all.
\<close>

definition rawLabels :: "'e classifier \<Rightarrow> string list \<Rightarrow> nat \<Rightarrow> nat \<Rightarrow> string set" where
  "rawLabels cls src a b =
     set (filter (\<lambda>l. l \<noteq> []) (map (\<lambda>i. fixLabels cls (src ! i)) [a..<b]))"

text \<open>An unconditional jump, as the second scan of \<^verbatim>\<open>getMissingLines\<close> tests it.\<close>

definition isJMP :: "'e classifier \<Rightarrow> string \<Rightarrow> bool" where
  "isJMP cls line = (fst (upperCaseJumps cls line) = ''JMP'')"


text \<open>
  The first value of \<open>bodyEnd\<close> as the design words it: one line past the first return
  instruction found by scanning forward from the line after the label line.
\<close>

definition spec_initialBodyEnd :: "string list \<Rightarrow> nat \<Rightarrow> nat option" where
  "spec_initialBodyEnd src labelLine =
     map_option (\<lambda>i. labelLine + 1 + i + 1) (findFirst isRet (drop (labelLine + 1) src))"

section \<open>The symbol name decoder: properties\<close>

lemma digitChar_props: "d < 10 \<Longrightarrow> isDigit (digitChar d) \<and> digitVal (digitChar d) = d"
proof -
  assume "d < 10"
  then have "d \<in> {0, 1, 2, 3, 4, 5, 6, 7, 8, 9}" by auto
  then show ?thesis
    by (auto simp: digitChar_def isDigit_def digitVal_def)
qed

lemma atoi_snoc: "atoi (ds @ [c]) = 10 * atoi ds + digitVal c"
  by (simp add: atoi_def)

lemma atoi_decimal: "atoi (decimal n) = n"
proof (induction n rule: decimal.induct)
  case (1 n)
  show ?case
  proof (cases "n < 10")
    case True
    then show ?thesis
      by (subst decimal.simps) (simp add: atoi_def digitChar_props)
  next
    case False
    then have "atoi (decimal (n div 10)) = n div 10" using 1 by simp
    with False show ?thesis
      by (subst decimal.simps) (simp add: atoi_snoc digitChar_props)
  qed
qed

lemma decimal_digits: "c \<in> set (decimal n) \<Longrightarrow> isDigit c"
proof (induction n rule: decimal.induct)
  case (1 n)
  show ?case
  proof (cases "n < 10")
    case True
    with "1.prems" show ?thesis
      by (subst (asm) decimal.simps) (simp add: digitChar_props)
  next
    case False
    with "1.prems" "1.IH" show ?thesis
      by (subst (asm) decimal.simps) (auto simp: digitChar_props)
  qed
qed

lemma decimal_not_Nil: "decimal n \<noteq> []"
  by (subst decimal.simps) simp

lemma atoi_zero_prefix: "atoi zs = 0 \<Longrightarrow> atoi (zs @ ds) = atoi ds"
  by (simp add: atoi_def)

lemma takeWhile_digits:
  assumes "\<forall>c\<in>set ds. isDigit c" and "\<not> startsWithDigit rest"
  shows "takeWhile isDigit (ds @ rest) = ds"
proof -
  have "takeWhile isDigit rest = []"
    using assms(2) by (cases rest) (auto simp: startsWithDigit_def)
  with assms(1) show ?thesis by (simp add: takeWhile_append2)
qed

lemma extractNamePart_digits_only:
  assumes "\<forall>c\<in>set zs. isDigit c" and "atoi zs = 0"
  shows "extractNamePart zs = Inr (length zs, [])"
proof -
  have tw: "takeWhile isDigit zs = zs" using assms(1) by simp
  show ?thesis
    unfolding extractNamePart_def tw Let_def
    using assms(2) by (simp add: slice_def)
qed

lemma extractNamePart_fragment:
  assumes zs: "\<forall>c\<in>set zs. isDigit c" "atoi zs = 0"
    and f: "f \<noteq> []" "\<not> startsWithDigit f"
  shows "extractNamePart (zs @ decimal (length f) @ f @ rest) =
         Inr (length zs + length (decimal (length f)) + length f, f)"
proof -
  let ?ds = "zs @ decimal (length f)"
  have dig: "\<forall>c\<in>set ?ds. isDigit c"
    using zs(1) by (auto dest: decimal_digits)
  have "\<not> startsWithDigit (f @ rest)"
    using f by (cases f) (auto simp: startsWithDigit_def)
  with dig have tw: "takeWhile isDigit (?ds @ f @ rest) = ?ds"
    by (rule takeWhile_digits)
  have val: "atoi ?ds = length f"
    using zs(2) by (simp add: atoi_zero_prefix atoi_decimal)
  have "extractNamePart (?ds @ f @ rest) = Inr (length ?ds + length f, f)"
    unfolding extractNamePart_def tw Let_def
    by (simp add: val slice_def)
  then show ?thesis by simp
qed

lemma decodeParts_encode:
  assumes "\<forall>f\<in>set fs. \<not> startsWithDigit f"
    and "\<forall>c\<in>set zs. isDigit c" and "atoi zs = 0"
  shows "\<exists>parts. decodeParts (zs @ spec_encode fs) = Inr parts \<and> concat parts = concat fs"
  using assms
proof (induction fs arbitrary: zs)
  case Nil
  show ?case
  proof (cases "zs = []")
    case True
    then show ?thesis by (simp add: decodeParts.simps)
  next
    case False
    have "extractNamePart zs = Inr (length zs, [])"
      using Nil.prems(2,3) by (rule extractNamePart_digits_only)
    with False have "decodeParts zs = Inr [[]]"
      by (subst decodeParts.simps) (simp add: decodeParts.simps)
    then show ?thesis by simp
  qed
next
  case (Cons f fs)
  have fs: "\<forall>f\<in>set fs. \<not> startsWithDigit f" using Cons.prems(1) by simp
  show ?case
  proof (cases "f = []")
    case True
    have z: "decimal 0 = ''0''" by (simp add: decimal.simps digitChar_def)
    have "\<forall>c\<in>set (zs @ ''0''). isDigit c"
      using Cons.prems(2) by (auto simp: isDigit_def)
    moreover have "atoi (zs @ ''0'') = 0"
      using Cons.prems(3) by (simp add: atoi_snoc digitVal_def)
    ultimately obtain parts where
      "decodeParts ((zs @ ''0'') @ spec_encode fs) = Inr parts" "concat parts = concat fs"
      using Cons.IH [OF fs] by blast
    with True z show ?thesis by simp
  next
    case False
    have nd: "\<not> startsWithDigit f" using Cons.prems(1) by simp
    let ?s = "zs @ decimal (length f) @ f @ spec_encode fs"
    let ?n = "length zs + length (decimal (length f)) + length f"
    have part: "extractNamePart ?s = Inr (?n, f)"
      using Cons.prems(2,3) False nd by (rule extractNamePart_fragment)
    have pos: "?n \<noteq> 0" using False by simp
    have rest: "drop ?n ?s = spec_encode fs" by simp
    obtain parts where p: "decodeParts (spec_encode fs) = Inr parts" "concat parts = concat fs"
      using Cons.IH [OF fs, of "[]"] by (auto simp: atoi_def)
    have "?s \<noteq> []" using False by simp
    then have "decodeParts ?s = Inr (f # parts)"
      using part pos rest p(1) by (subst decodeParts.simps) simp
    with p(2) show ?thesis by simp
  qed
qed

lemma spec_encode_head:
  "spec_encode fs = [] \<or> (\<exists>c cs. spec_encode fs = c # cs \<and> isDigit c)"
proof (cases fs)
  case Nil
  then show ?thesis by simp
next
  case (Cons f fs')
  obtain c cs where d: "decimal (length f) = c # cs"
    using decimal_not_Nil by (cases "decimal (length f)") auto
  then have "isDigit c" using decimal_digits [of c "length f"] by simp
  with Cons d show ?thesis by simp
qed

text \<open>
  C5, as amended. For every token built by concatenating, for each fragment of a
  sequence, the decimal length of the fragment followed by the fragment itself, where
  no fragment begins with a digit, the decoder returns the concatenation of the
  fragments; decoding \<open>3foo3bar\<close> returns \<open>foobar\<close>. (A fragment may be empty.)
\<close>

theorem extractName_encode:
  assumes "\<forall>f\<in>set fs. \<not> startsWithDigit f"
  shows "extractName (spec_encode fs) = Inr (concat fs)"
proof -
  have dw: "dropWhile (\<lambda>ch. \<not> isDigit ch) (spec_encode fs) = spec_encode fs"
    using spec_encode_head [of fs] by auto
  obtain parts where "decodeParts (spec_encode fs) = Inr parts" "concat parts = concat fs"
    using decodeParts_encode [OF assms, of "[]"] by (auto simp: atoi_def)
  then show ?thesis by (simp add: extractName_def dw)
qed

theorem extractName_encode_witness:
  "extractName ''3foo3bar'' = Inr ''foobar''"
proof -
  have e: "spec_encode [''foo'', ''bar''] = ''3foo3bar''"
    by (simp add: decimal.simps digitChar_def)
  have "\<forall>f\<in>set [''foo'', ''bar'']. \<not> startsWithDigit f"
    by (simp add: startsWithDigit_def isDigit_def)
  from extractName_encode [OF this] have "extractName ''3foo3bar'' = Inr (concat [''foo'', ''bar''])"
    unfolding e .
  then show ?thesis by simp
qed

text \<open>
  Without the condition the property fails: the fragment \<open>1a\<close> is encoded as
  \<open>21a\<close>, which the decoder reads as a length of 21 and slices out of range.
\<close>

theorem extractName_encode_counterexample:
  "spec_encode [''1a''] = ''21a'' \<and> extractName ''21a'' = Inl OutOfRange"
  by (simp add: decimal.simps digitChar_def extractName_def decodeParts.simps
      extractNamePart_def isDigit_def atoi_def digitVal_def slice_def)

section \<open>Facts about the scans\<close>

text \<open>The definitions to unfold when a function is evaluated on a concrete listing.\<close>

lemmas string_eval =
  containsStr_def splitSecond_def trimSpace_def isSpace_def isSpaceRe_def isRet_def
  isDigit_def digitVal_def atoi_def slice_def

lemmas decoder_eval = extractName_def decodeParts.simps extractNamePart_def

lemmas sample_eval = sampleClassifier_def sampleStrip_def sampleLabel_def sampleJump_def

lemmas segment_eval =
  segmentSource_def splitOnGlobals_def findLabel_def findRet.simps extractSubroutine_def
  resolveBodyEnd.simps getMissingLabels_def getMissingLines_def findMissing.simps
  findJMP.simps extractEpilogue_def extractEpilogueInfo_def getPrologueLines_def
  removePrologueLines_def Let_def

lemma findFirst_None: "findFirst P xs = None \<longleftrightarrow> (\<forall>x\<in>set xs. \<not> P x)"
  by (induction xs) auto

lemma findFirst_Some:
  "findFirst P xs = Some k \<longleftrightarrow> k < length xs \<and> P (xs ! k) \<and> (\<forall>j<k. \<not> P (xs ! j))"
proof (induction xs arbitrary: k)
  case Nil
  then show ?case by simp
next
  case (Cons x xs)
  show ?case
  proof (cases "P x")
    case True
    then show ?thesis by (cases k) auto
  next
    case False
    show ?thesis
    proof (cases k)
      case 0
      with False show ?thesis by auto
    next
      case (Suc k')
      have "(\<forall>j<Suc k'. \<not> P ((x # xs) ! j)) \<longleftrightarrow> (\<forall>j<k'. \<not> P (xs ! j))"
        using False by (auto simp: less_Suc_eq_0_disj)
      with False Suc Cons.IH [of k'] show ?thesis by auto
    qed
  qed
qed

lemma findRet_None: "findRet src b e = None \<longleftrightarrow> (\<forall>k. b \<le> k \<and> k < e \<longrightarrow> \<not> isRet (src ! k))"
proof (induction src b e rule: findRet.induct)
  case (1 src lineRet splitEnd)
  show ?case
  proof (cases "lineRet < splitEnd")
    case False
    then show ?thesis by (subst findRet.simps) auto
  next
    case True
    show ?thesis
    proof (cases "isRet (src ! lineRet)")
      case r: True
      with True show ?thesis by (subst findRet.simps) auto
    next
      case r: False
      have "findRet src lineRet splitEnd = findRet src (Suc lineRet) splitEnd"
        using True r by (subst findRet.simps) simp
      moreover have "(\<forall>k. lineRet \<le> k \<and> k < splitEnd \<longrightarrow> \<not> isRet (src ! k)) \<longleftrightarrow>
                     (\<forall>k. Suc lineRet \<le> k \<and> k < splitEnd \<longrightarrow> \<not> isRet (src ! k))"
        using r by (metis Suc_leD Suc_leI le_neq_implies_less)
      ultimately show ?thesis using "1.IH" [OF True r] by simp
    qed
  qed
qed

lemma findRet_Some:
  "findRet src b e = Some lineRet \<Longrightarrow>
     b \<le> lineRet \<and> lineRet < e \<and> isRet (src ! lineRet) \<and>
     (\<forall>k. b \<le> k \<and> k < lineRet \<longrightarrow> \<not> isRet (src ! k))"
proof (induction src b e rule: findRet.induct)
  case (1 src b splitEnd)
  from "1.prems" have lt: "b < splitEnd"
    by (subst (asm) findRet.simps) (simp split: if_splits)
  show ?case
  proof (cases "isRet (src ! b)")
    case True
    with lt "1.prems" have "lineRet = b"
      by (subst (asm) findRet.simps) simp
    with True lt show ?thesis by auto
  next
    case False
    with lt "1.prems" have "findRet src (Suc b) splitEnd = Some lineRet"
      by (subst (asm) findRet.simps) simp
    from "1.IH" [OF lt False this] False show ?thesis
      by (metis Suc_leD Suc_leI le_neq_implies_less)
  qed
qed

lemma segmentLoop_extractAll:
  "segmentLoop cls src (dotGlobalLine g) (g # globals) = extractAll cls src (retLines src (g # globals))"
proof (induction globals arbitrary: g)
  case Nil
  show ?case by (simp add: regionEnd_def split: option.splits sum.splits)
next
  case (Cons n globals)
  have e: "regionEnd src (n # globals) = dotGlobalLine n" by (simp add: regionEnd_def)
  have "segmentLoop cls src (dotGlobalLine g) (g # n # globals) =
        (case findRet src (dotGlobalLine g) (dotGlobalLine n) of
           None \<Rightarrow> segmentLoop cls src (dotGlobalLine n) (n # globals)
         | Some lineRet \<Rightarrow>
             (case extractSubroutine cls lineRet src g of
                Inl e \<Rightarrow> Inl e
              | Inr newsub \<Rightarrow>
                  (case segmentLoop cls src (dotGlobalLine n) (n # globals) of
                     Inl e \<Rightarrow> Inl e
                   | Inr subroutines \<Rightarrow> Inr (newsub # subroutines))))"
    by (subst segmentLoop.simps) (simp add: Let_def del: segmentLoop.simps)
  also have "\<dots> = extractAll cls src (retLines src (g # n # globals))"
  proof -
    have r: "retLines src (g # n # globals) =
             (case findRet src (dotGlobalLine g) (dotGlobalLine n) of
                None \<Rightarrow> retLines src (n # globals)
              | Some lineRet \<Rightarrow> (lineRet, g) # retLines src (n # globals))"
      by (subst retLines.simps) (simp add: e del: retLines.simps)
    show ?thesis
      unfolding Cons.IH r
      by (simp del: retLines.simps segmentLoop.simps split: option.splits)
  qed
  finally show ?case .
qed

lemma segmentSource_extractAll:
  "segmentSource cls src =
     (case splitOnGlobals src of
        Inl e \<Rightarrow> Inl e
      | Inr globals \<Rightarrow> extractAll cls src (retLines src globals))"
proof (cases "splitOnGlobals src")
  case (Inl e)
  then show ?thesis by (simp add: segmentSource_def)
next
  case (Inr globals)
  show ?thesis
  proof (cases globals)
    case Nil
    with Inr show ?thesis by (simp add: segmentSource_def)
  next
    case (Cons g gs)
    with Inr show ?thesis
      by (simp add: segmentSource_def segmentLoop_extractAll del: segmentLoop.simps retLines.simps)
  qed
qed

lemma splitOnGlobalsFrom_Cons:
  "splitOnGlobalsFrom lines index (line # rest) =
     (if containsStr line ''.globl'' then
        (case extractName (scrambledOf line) of
           Inl e \<Rightarrow> Inl e
         | Inr nm \<Rightarrow>
             (case findLabel lines (scrambledOf line) of
                Inl e \<Rightarrow> Inl e
              | Inr labelLine \<Rightarrow>
                  (case splitOnGlobalsFrom lines (Suc index) rest of
                     Inl e \<Rightarrow> Inl e
                   | Inr result \<Rightarrow>
                       Inr (\<lparr>dotGlobalLine = index, globalName = nm, globalLabelLine = labelLine\<rparr>
                            # result))))
      else splitOnGlobalsFrom lines (Suc index) rest)"
  unfolding scrambledOf_def by (simp add: Let_def)

lemma splitOnGlobalsFrom_member:
  assumes "splitOnGlobalsFrom lines index rest = Inr gs" and "g \<in> set gs"
  shows "index \<le> dotGlobalLine g \<and> dotGlobalLine g < index + length rest \<and>
         containsStr (rest ! (dotGlobalLine g - index)) ''.globl'' \<and>
         extractName (scrambledOf (rest ! (dotGlobalLine g - index))) = Inr (globalName g) \<and>
         findLabel lines (scrambledOf (rest ! (dotGlobalLine g - index))) = Inr (globalLabelLine g)"
  using assms
proof (induction rest arbitrary: index gs)
  case Nil
  then show ?case by simp
next
  case (Cons line rest)
  show ?case
  proof (cases "containsStr line ''.globl''")
    case False
    with Cons.prems(1) have "splitOnGlobalsFrom lines (Suc index) rest = Inr gs"
      by (simp add: splitOnGlobalsFrom_Cons del: splitOnGlobalsFrom.simps)
    from Cons.IH [OF this Cons.prems(2)] show ?thesis
      by (auto simp: Suc_diff_le)
  next
    case True
    from Cons.prems(1) True obtain nm labelLine result where
      nm: "extractName (scrambledOf line) = Inr nm"
      and lab: "findLabel lines (scrambledOf line) = Inr labelLine"
      and rest: "splitOnGlobalsFrom lines (Suc index) rest = Inr result"
      and gs: "gs = \<lparr>dotGlobalLine = index, globalName = nm, globalLabelLine = labelLine\<rparr> # result"
      by (auto simp: splitOnGlobalsFrom_Cons simp del: splitOnGlobalsFrom.simps split: sum.splits)
    show ?thesis
    proof (cases "g \<in> set result")
      case True
      from Cons.IH [OF rest True] show ?thesis
        by (auto simp: Suc_diff_le)
    next
      case False
      with gs Cons.prems(2)
      have "g = \<lparr>dotGlobalLine = index, globalName = nm, globalLabelLine = labelLine\<rparr>" by simp
      with True nm lab show ?thesis by simp
    qed
  qed
qed

lemma splitOnGlobalsFrom_sorted:
  "splitOnGlobalsFrom lines index rest = Inr gs \<Longrightarrow> sorted_wrt (<) (map dotGlobalLine gs)"
proof (induction rest arbitrary: index gs)
  case Nil
  then show ?case by simp
next
  case (Cons line rest)
  show ?case
  proof (cases "containsStr line ''.globl''")
    case False
    with Cons.prems have "splitOnGlobalsFrom lines (Suc index) rest = Inr gs"
      by (simp add: splitOnGlobalsFrom_Cons del: splitOnGlobalsFrom.simps)
    then show ?thesis by (rule Cons.IH)
  next
    case True
    from Cons.prems True obtain nm labelLine result where
      rest: "splitOnGlobalsFrom lines (Suc index) rest = Inr result"
      and gs: "gs = \<lparr>dotGlobalLine = index, globalName = nm, globalLabelLine = labelLine\<rparr> # result"
      by (auto simp: splitOnGlobalsFrom_Cons simp del: splitOnGlobalsFrom.simps split: sum.splits)
    have "\<forall>g\<in>set result. index < dotGlobalLine g"
    proof
      fix g assume "g \<in> set result"
      from splitOnGlobalsFrom_member [OF rest this] show "index < dotGlobalLine g" by simp
    qed
    with Cons.IH [OF rest] gs show ?thesis by simp
  qed
qed

lemma splitOnGlobalsFrom_length:
  "splitOnGlobalsFrom lines index rest = Inr gs \<Longrightarrow>
     length gs = length (filter (\<lambda>line. containsStr line ''.globl'') rest)"
proof (induction rest arbitrary: index gs)
  case Nil
  then show ?case by simp
next
  case (Cons line rest)
  then show ?case
    by (auto simp: splitOnGlobalsFrom_Cons simp del: splitOnGlobalsFrom.simps
        split: if_splits sum.splits)
qed

lemma splitOnGlobalsFrom_fails:
  assumes "line \<in> set rest" and "containsStr line ''.globl''"
    and "findLabel lines (scrambledOf line) = Inl FailedToFindLabel"
  shows "\<exists>e. splitOnGlobalsFrom lines index rest = Inl e"
  using assms(1)
proof (induction rest arbitrary: index)
  case Nil
  then show ?case by simp
next
  case (Cons l rest)
  show ?case
  proof (cases "l = line")
    case True
    with assms(2,3) show ?thesis
      by (simp add: splitOnGlobalsFrom_Cons del: splitOnGlobalsFrom.simps split: sum.splits)
  next
    case False
    with Cons.prems have "line \<in> set rest" by simp
    from Cons.IH [OF this, of "Suc index"] show ?thesis
      by (auto simp: splitOnGlobalsFrom_Cons simp del: splitOnGlobalsFrom.simps split: sum.splits)
  qed
qed

lemma splitOnGlobalsFrom_fails_label:
  assumes "line \<in> set rest" and "containsStr line ''.globl''"
    and "findLabel lines (scrambledOf line) = Inl FailedToFindLabel"
    and "\<forall>l\<in>set rest. containsStr l ''.globl'' \<longrightarrow> (\<exists>nm. extractName (scrambledOf l) = Inr nm)"
  shows "splitOnGlobalsFrom lines index rest = Inl FailedToFindLabel"
  using assms(1,4)
proof (induction rest arbitrary: index)
  case Nil
  then show ?case by simp
next
  case (Cons l rest)
  have fl: "findLabel lines lab = Inl e \<Longrightarrow> e = FailedToFindLabel" for lab e
    by (simp add: findLabel_def Let_def split: option.splits)
  show ?case
  proof (cases "l = line")
    case True
    with assms(2,3) Cons.prems(2) show ?thesis
      by (auto simp: splitOnGlobalsFrom_Cons simp del: splitOnGlobalsFrom.simps split: sum.splits)
  next
    case False
    with Cons.prems have "line \<in> set rest" by simp
    moreover have "\<forall>l\<in>set rest. containsStr l ''.globl'' \<longrightarrow> (\<exists>nm. extractName (scrambledOf l) = Inr nm)"
      using Cons.prems(2) by simp
    ultimately have ih: "splitOnGlobalsFrom lines (Suc index) rest = Inl FailedToFindLabel"
      by (rule Cons.IH)
    show ?thesis
    proof (cases "containsStr l ''.globl''")
      case c: False
      with ih show ?thesis
        by (simp add: splitOnGlobalsFrom_Cons del: splitOnGlobalsFrom.simps)
    next
      case c: True
      then obtain nm where "extractName (scrambledOf l) = Inr nm"
        using Cons.prems(2) by auto
      with c ih show ?thesis
        by (auto simp: splitOnGlobalsFrom_Cons simp del: splitOnGlobalsFrom.simps
            split: sum.splits dest: fl)
    qed
  qed
qed

lemma findLabel_Inr:
  "findLabel lines label = Inr k \<longleftrightarrow>
     k < length lines \<and> hasPrefix (lines ! k) (label @ '':'') \<and>
     (\<forall>j<k. \<not> hasPrefix (lines ! j) (label @ '':''))"
proof (cases "findFirst (\<lambda>line. hasPrefix line (label @ '':'')) lines")
  case None
  then have "\<forall>line\<in>set lines. \<not> hasPrefix line (label @ '':'')"
    by (simp add: findFirst_None)
  then have "k < length lines \<Longrightarrow> \<not> hasPrefix (lines ! k) (label @ '':'')"
    by simp
  with None show ?thesis by (auto simp: findLabel_def Let_def)
next
  case (Some x)
  have "findLabel lines label = Inr k \<longleftrightarrow>
        findFirst (\<lambda>line. hasPrefix line (label @ '':'')) lines = Some k"
    using Some by (simp add: findLabel_def Let_def)
  then show ?thesis by (simp add: findFirst_Some)
qed

lemma findLabel_Inl:
  "findLabel lines label = Inl e \<longleftrightarrow>
     e = FailedToFindLabel \<and> (\<forall>line\<in>set lines. \<not> hasPrefix line (label @ '':''))"
proof (cases "findFirst (\<lambda>line. hasPrefix line (label @ '':'')) lines")
  case None
  have "\<forall>line\<in>set lines. \<not> hasPrefix line (label @ '':'')"
    using None by (simp add: findFirst_None)
  moreover have "findLabel lines label = Inl FailedToFindLabel"
    using None by (simp add: findLabel_def Let_def)
  ultimately show ?thesis by auto
next
  case (Some x)
  then have "\<not> (\<forall>line\<in>set lines. \<not> hasPrefix line (label @ '':''))"
    using findFirst_None [of "\<lambda>line. hasPrefix line (label @ '':'')" lines] by simp
  with Some show ?thesis by (simp add: findLabel_def Let_def)
qed



lemma retLines_all:
  "allHaveRet src globals \<Longrightarrow> map snd (retLines src globals) = globals"
proof (induction globals)
  case Nil
  show ?case by simp
next
  case (Cons g globals)
  then have "findRet src (dotGlobalLine g) (regionEnd src globals) \<noteq> None"
    by (auto simp: findRet_None)
  with Cons show ?case by auto
qed

lemma extractAll_Inr:
  "extractAll cls src pairs = Inr subs \<Longrightarrow>
     list_all2 (\<lambda>p s. extractSubroutine cls (fst p) src (snd p) = Inr s) pairs subs"
proof (induction pairs arbitrary: subs)
  case Nil
  then show ?case by simp
next
  case (Cons p pairs)
  obtain lineRet g where p: "p = (lineRet, g)" by (cases p)
  from Cons.prems obtain s rest where
    "extractSubroutine cls lineRet src g = Inr s" "extractAll cls src pairs = Inr rest"
    "subs = s # rest"
    by (auto simp: p split: sum.splits)
  with Cons.IH [of rest] p show ?case by simp
qed

lemma removePrologueLines_name:
  "removePrologueLines cls s src bodyStart bodyEnd = Inr s' \<Longrightarrow> name s' = name s"
  by (auto simp: removePrologueLines_def Let_def split: sum.splits)

lemma extractSubroutine_name:
  "extractSubroutine cls lineRet src g = Inr s \<Longrightarrow> name s = globalName g"
  unfolding extractSubroutine_def Let_def
  by (auto split: sum.splits dest: removePrologueLines_name)

section \<open>Segmentation: globals without a return instruction\<close>




section \<open>Segmentation: one record per well-formed global\<close>

lemma splitOnGlobals_member:
  assumes "splitOnGlobals src = Inr globals" and "g \<in> set globals"
  shows "dotGlobalLine g < length src \<and>
         containsStr (src ! dotGlobalLine g) ''.globl'' \<and>
         extractName (scrambledOf (src ! dotGlobalLine g)) = Inr (globalName g) \<and>
         findLabel src (scrambledOf (src ! dotGlobalLine g)) = Inr (globalLabelLine g)"
proof -
  from assms have "splitOnGlobalsFrom src 0 src = Inr globals"
    by (simp add: splitOnGlobals_def)
  from splitOnGlobalsFrom_member [OF this assms(2)] show ?thesis by simp
qed

text \<open>
  C2, as amended. For every listing with N directive lines, each with a matching label
  definition and a return instruction before the next global, segmentation, when no
  extraction panics, yields exactly N records, the i-th being the one extracted for
  the i-th directive of the listing and bearing its decoded name.
\<close>

theorem segmentSource_one_per_global:
  assumes "splitOnGlobals src = Inr globals"
    and "allHaveRet src globals"
    and "segmentSource cls src = Inr subs"
  shows "length globals = length (filter (\<lambda>line. containsStr line ''.globl'') src) \<and>
         sorted_wrt (<) (map dotGlobalLine globals) \<and>
         length subs = length globals \<and>
         map name subs = map globalName globals \<and>
         (\<forall>i<length globals. \<exists>lineRet. extractSubroutine cls lineRet src (globals ! i) = Inr (subs ! i))"
proof -
  from assms(1) have sg: "splitOnGlobalsFrom src 0 src = Inr globals"
    by (simp add: splitOnGlobals_def)
  have n: "length globals = length (filter (\<lambda>line. containsStr line ''.globl'') src)"
    using sg by (rule splitOnGlobalsFrom_length)
  have srt: "sorted_wrt (<) (map dotGlobalLine globals)"
    using sg by (rule splitOnGlobalsFrom_sorted)
  have "extractAll cls src (retLines src globals) = Inr subs"
    using assms(1,3) by (simp add: segmentSource_extractAll)
  then have all2: "list_all2 (\<lambda>p s. extractSubroutine cls (fst p) src (snd p) = Inr s)
                     (retLines src globals) subs"
    by (rule extractAll_Inr)
  have g: "map snd (retLines src globals) = globals"
    using assms(2) by (rule retLines_all)
  then have len': "length (retLines src globals) = length globals"
    by (metis length_map)
  with all2 have len: "length subs = length globals"
    by (simp add: list_all2_lengthD)
  have each: "extractSubroutine cls (fst (retLines src globals ! i)) src (globals ! i) = Inr (subs ! i)"
    if "i < length globals" for i
  proof -
    from that len' have i: "i < length (retLines src globals)" by simp
    have "extractSubroutine cls (fst (retLines src globals ! i)) src
                      (snd (retLines src globals ! i)) = Inr (subs ! i)"
      using list_all2_nthD [OF all2 i] by simp
    moreover have "snd (retLines src globals ! i) = globals ! i"
      using g i by (metis nth_map)
    ultimately show ?thesis by simp
  qed
  have names: "map name subs = map globalName globals"
  proof (rule nth_equalityI)
    show "length (map name subs) = length (map globalName globals)" using len by simp
  next
    fix i assume "i < length (map name subs)"
    with len have i: "i < length globals" by simp
    from each [OF i] have "name (subs ! i) = globalName (globals ! i)"
      by (rule extractSubroutine_name)
    with i len show "map name subs ! i = map globalName globals ! i" by simp
  qed
  from n srt len names each show ?thesis by blast
qed

theorem segmentSource_one_per_global_witness:
  "map name (projr (segmentSource sampleClassifier
      [''.globl 1f'', ''1f:'', ''mov'', ''ret'', ''.globl 1g'', ''1g:'', ''push'', ''ret''])) =
   [''f'', ''g'']"
proof -
  let ?S = "[''.globl 1f'', ''1f:'', ''mov'', ''ret'', ''.globl 1g'', ''1g:'', ''push'', ''ret'']"
  let ?G = "[\<lparr>dotGlobalLine = 0, globalName = ''f'', globalLabelLine = 1\<rparr>,
             \<lparr>dotGlobalLine = 4, globalName = ''g'', globalLabelLine = 5\<rparr>]"
  let ?R = "[\<lparr>name = ''f'', body = [''mov'', ''ret''],
               epilogue = \<lparr>Start = 1, End = 2, details = ()\<rparr>\<rparr>,
             \<lparr>name = ''g'', body = [''ret''],
               epilogue = \<lparr>Start = 0, End = 1, details = ()\<rparr>\<rparr>]"
  have g: "splitOnGlobals ?S = Inr ?G"
    by (simp add: string_eval decoder_eval splitOnGlobals_def findLabel_def)
  have w: "allHaveRet ?S ?G"
    by (auto simp: regionEnd_def isRet_def isSpaceRe_def intro: bexI [of _ 3] bexI [of _ 7])
  have r: "segmentSource sampleClassifier ?S = Inr ?R"
    by (simp add: string_eval decoder_eval sample_eval segment_eval)
  from segmentSource_one_per_global [OF g w r]
  have "map name ?R = map globalName ?G" by blast
  with r show ?thesis by simp
qed

text \<open>
  A global with its label and its return instruction, and a label in its body that no
  jump refers to: segmentation panics.
\<close>

theorem well_formed_globals_counterexample:
  "splitOnGlobals [''.globl 1f'', ''1f:'', ''L1:'', ''ret''] =
     Inr [\<lparr>dotGlobalLine = 0, globalName = ''f'', globalLabelLine = 1\<rparr>] \<and>
   allHaveRet [''.globl 1f'', ''1f:'', ''L1:'', ''ret'']
     [\<lparr>dotGlobalLine = 0, globalName = ''f'', globalLabelLine = 1\<rparr>] \<and>
   segmentSource sampleClassifier [''.globl 1f'', ''1f:'', ''L1:'', ''ret''] = Inl LabelNotFound"
  by (auto simp: string_eval decoder_eval sample_eval segment_eval regionEnd_def
      intro: bexI [of _ 3])

section \<open>The label line of a global\<close>

lemma segmentSource_Inl:
  "splitOnGlobals src = Inl e \<Longrightarrow> segmentSource cls src = Inl e"
  by (simp add: segmentSource_def)

text \<open>
  C4, as amended. For every \<open>.globl\<close> directive, the label line of its global is the
  first line of the whole listing, searched from line 0, whose text as it stands (not
  trimmed) begins with the operand of the directive as written (not decoded) followed
  by a colon; the name of the global is the decoded operand. If the listing has no
  such line for some directive, segmentation fails fatally, and with the error of the
  missing label when the operand of every directive decodes without a panic.
\<close>

theorem splitOnGlobals_labelLine:
  "(splitOnGlobals src = Inr globals \<and> g \<in> set globals \<longrightarrow>
      dotGlobalLine g < length src \<and>
      containsStr (src ! dotGlobalLine g) ''.globl'' \<and>
      extractName (scrambledOf (src ! dotGlobalLine g)) = Inr (globalName g) \<and>
      globalLabelLine g < length src \<and>
      hasPrefix (src ! globalLabelLine g) (scrambledOf (src ! dotGlobalLine g) @ '':'') \<and>
      (\<forall>j<globalLabelLine g.
         \<not> hasPrefix (src ! j) (scrambledOf (src ! dotGlobalLine g) @ '':''))) \<and>
   (i < length src \<and> containsStr (src ! i) ''.globl'' \<and>
      (\<forall>line\<in>set src. \<not> hasPrefix line (scrambledOf (src ! i) @ '':'')) \<longrightarrow>
      (\<exists>e. splitOnGlobals src = Inl e \<and> segmentSource cls src = Inl e) \<and>
      ((\<forall>l\<in>set src. containsStr l ''.globl'' \<longrightarrow> (\<exists>nm. extractName (scrambledOf l) = Inr nm)) \<longrightarrow>
         segmentSource cls src = Inl FailedToFindLabel))"
proof (intro conjI impI)
  assume a: "splitOnGlobals src = Inr globals \<and> g \<in> set globals"
  then have m: "dotGlobalLine g < length src \<and>
         containsStr (src ! dotGlobalLine g) ''.globl'' \<and>
         extractName (scrambledOf (src ! dotGlobalLine g)) = Inr (globalName g) \<and>
         findLabel src (scrambledOf (src ! dotGlobalLine g)) = Inr (globalLabelLine g)"
    by (simp add: splitOnGlobals_member)
  then show "dotGlobalLine g < length src"
    and "containsStr (src ! dotGlobalLine g) ''.globl''"
    and "extractName (scrambledOf (src ! dotGlobalLine g)) = Inr (globalName g)"
    by simp_all
  from m have "findLabel src (scrambledOf (src ! dotGlobalLine g)) = Inr (globalLabelLine g)"
    by simp
  then show "globalLabelLine g < length src"
    and "hasPrefix (src ! globalLabelLine g) (scrambledOf (src ! dotGlobalLine g) @ '':'')"
    and "\<forall>j<globalLabelLine g.
           \<not> hasPrefix (src ! j) (scrambledOf (src ! dotGlobalLine g) @ '':'')"
    by (simp_all add: findLabel_Inr)
next
  assume b: "i < length src \<and> containsStr (src ! i) ''.globl'' \<and>
      (\<forall>line\<in>set src. \<not> hasPrefix line (scrambledOf (src ! i) @ '':''))"
  then have mem: "src ! i \<in> set src" and c: "containsStr (src ! i) ''.globl''"
    and f: "findLabel src (scrambledOf (src ! i)) = Inl FailedToFindLabel"
    by (simp_all add: findLabel_Inl)
  from splitOnGlobalsFrom_fails [OF mem c f, of 0]
  obtain e where "splitOnGlobals src = Inl e" by (auto simp: splitOnGlobals_def)
  then show "\<exists>e. splitOnGlobals src = Inl e \<and> segmentSource cls src = Inl e"
    by (auto simp: segmentSource_Inl)
  assume d: "\<forall>l\<in>set src. containsStr l ''.globl'' \<longrightarrow> (\<exists>nm. extractName (scrambledOf l) = Inr nm)"
  from splitOnGlobalsFrom_fails_label [OF mem c f d, of 0]
  have "splitOnGlobals src = Inl FailedToFindLabel" by (simp add: splitOnGlobals_def)
  then show "segmentSource cls src = Inl FailedToFindLabel" by (rule segmentSource_Inl)
qed

theorem splitOnGlobals_labelLine_witness:
  "globalLabelLine (hd (projr (splitOnGlobals [''3foo:'', ''.globl 3foo'', ''  foo:'', ''ret'']))) < 4 \<and>
   segmentSource sampleClassifier [''.globl 3foo'', ''foo:'', ''mov'', ''ret''] = Inl FailedToFindLabel"
proof -
  let ?S = "[''3foo:'', ''.globl 3foo'', ''  foo:'', ''ret'']"
  let ?g = "\<lparr>dotGlobalLine = 1, globalName = ''foo'', globalLabelLine = 0\<rparr>"
  have g: "splitOnGlobals ?S = Inr [?g]"
    by (simp add: string_eval decoder_eval splitOnGlobals_def findLabel_def)
  from splitOnGlobals_labelLine [where src = ?S and globals = "[?g]" and g = ?g]
  have "splitOnGlobals ?S = Inr [?g] \<and> ?g \<in> set [?g] \<longrightarrow> globalLabelLine ?g < length ?S"
    by blast
  with g have 1: "globalLabelLine (hd (projr (splitOnGlobals ?S))) < 4" by simp
  let ?T = "[''.globl 3foo'', ''foo:'', ''mov'', ''ret'']"
  have s: "scrambledOf (?T ! 0) = ''3foo''"
    by (simp add: scrambledOf_def string_eval)
  have p: "0 < length ?T \<and> containsStr (?T ! 0) ''.globl'' \<and>
           (\<forall>line\<in>set ?T. \<not> hasPrefix line (scrambledOf (?T ! 0) @ '':''))"
    unfolding s by (simp add: containsStr_def)
  have d: "\<forall>l\<in>set ?T. containsStr l ''.globl'' \<longrightarrow> (\<exists>nm. extractName (scrambledOf l) = Inr nm)"
    by (simp add: scrambledOf_def string_eval decoder_eval)
  from splitOnGlobals_labelLine [where src = ?T and i = 0 and cls = sampleClassifier]
  have "0 < length ?T \<and> containsStr (?T ! 0) ''.globl'' \<and>
          (\<forall>line\<in>set ?T. \<not> hasPrefix line (scrambledOf (?T ! 0) @ '':'')) \<longrightarrow>
        ((\<forall>l\<in>set ?T. containsStr l ''.globl'' \<longrightarrow> (\<exists>nm. extractName (scrambledOf l) = Inr nm)) \<longrightarrow>
           segmentSource sampleClassifier ?T = Inl FailedToFindLabel)"
    by blast
  with p d have 2: "segmentSource sampleClassifier ?T = Inl FailedToFindLabel" by blast
  from 1 2 show ?thesis by (rule conjI)
qed

text \<open>
  In the first listing the design's label line of the directive on line 1 is line 2,
  and the code returns line 0, before the directive. The second listing is the
  design's scenario A: its label line would be line 1, and the code panics, for it
  looks for \<open>3foo:\<close>.
\<close>

theorem labelLine_counterexample:
  "splitOnGlobals [''3foo:'', ''.globl 3foo'', ''  foo:'', ''ret''] =
     Inr [\<lparr>dotGlobalLine = 1, globalName = ''foo'', globalLabelLine = 0\<rparr>] \<and>
   spec_labelLine [''3foo:'', ''.globl 3foo'', ''  foo:'', ''ret''] 1 ''foo'' = Some 2 \<and>
   splitOnGlobals [''.globl 3foo'', ''foo:'', ''mov'', ''ret''] = Inl FailedToFindLabel \<and>
   spec_labelLine [''.globl 3foo'', ''foo:'', ''mov'', ''ret''] 0 ''foo'' = Some 1"
  by (simp add: string_eval decoder_eval splitOnGlobals_def findLabel_def spec_labelLine_def)

section \<open>A directive operand without a digit\<close>

lemma extractName_no_digit:
  assumes "\<forall>c\<in>set token. \<not> isDigit c"
  shows "extractName token = Inr []"
proof -
  have "dropWhile (\<lambda>ch. \<not> isDigit ch) token = []" using assms by simp
  then show ?thesis by (simp add: extractName_def decodeParts.simps)
qed

text \<open>
  C6. For every directive operand with no digit character the decoder returns the empty
  string, without an error; the scan of the globals gives the global of such a
  directive the empty name (given its label line), and every record extracted for a
  global of that name has the empty name.
\<close>

theorem no_digit_empty_name:
  assumes "\<forall>c\<in>set token. \<not> isDigit c"
  shows "extractName token = Inr [] \<and>
         (containsStr line ''.globl'' \<and> scrambledOf line = token \<and>
          findLabel lines token = Inr labelLine \<and>
          splitOnGlobalsFrom lines (Suc index) rest = Inr result \<longrightarrow>
            splitOnGlobalsFrom lines index (line # rest) =
              Inr (\<lparr>dotGlobalLine = index, globalName = [], globalLabelLine = labelLine\<rparr> # result)) \<and>
         (extractSubroutine cls lineRet src
            \<lparr>dotGlobalLine = index, globalName = [], globalLabelLine = labelLine\<rparr> = Inr s \<longrightarrow>
            name s = [])"
proof (intro conjI impI)
  show e: "extractName token = Inr []" using assms by (rule extractName_no_digit)
  show "splitOnGlobalsFrom lines index (line # rest) =
          Inr (\<lparr>dotGlobalLine = index, globalName = [], globalLabelLine = labelLine\<rparr> # result)"
    if "containsStr line ''.globl'' \<and> scrambledOf line = token \<and>
        findLabel lines token = Inr labelLine \<and>
        splitOnGlobalsFrom lines (Suc index) rest = Inr result"
    using that e by (simp add: splitOnGlobalsFrom_Cons del: splitOnGlobalsFrom.simps)
  show "name s = []"
    if "extractSubroutine cls lineRet src
          \<lparr>dotGlobalLine = index, globalName = [], globalLabelLine = labelLine\<rparr> = Inr s"
    using extractSubroutine_name [OF that] by simp
qed

theorem no_digit_empty_name_witness:
  "extractName ''foo'' = Inr [] \<and>
   splitOnGlobals [''.globl foo'', ''foo:'', ''mov'', ''ret''] =
     Inr [\<lparr>dotGlobalLine = 0, globalName = [], globalLabelLine = 1\<rparr>] \<and>
   segmentSource sampleClassifier [''.globl foo'', ''foo:'', ''mov'', ''ret''] =
     Inr [\<lparr>name = [], body = [''mov'', ''ret''],
            epilogue = \<lparr>Start = 1, End = 2, details = ()\<rparr>\<rparr>]"
proof -
  let ?S = "[''.globl foo'', ''foo:'', ''mov'', ''ret'']"
  have nd: "\<forall>c\<in>set ''foo''. \<not> isDigit c" by (simp add: isDigit_def)
  note t = no_digit_empty_name [OF nd, where line = "''.globl foo''" and lines = ?S
      and labelLine = 1 and index = 0 and rest = "[''foo:'', ''mov'', ''ret'']" and result = "[]"]
  from t have 1: "extractName ''foo'' = Inr []" by blast
  have h: "containsStr ''.globl foo'' ''.globl'' \<and> scrambledOf ''.globl foo'' = ''foo'' \<and>
        findLabel ?S ''foo'' = Inr 1 \<and>
        splitOnGlobalsFrom ?S (Suc 0) [''foo:'', ''mov'', ''ret''] = Inr []"
    by (simp add: scrambledOf_def string_eval findLabel_def)
  from t h have 2: "splitOnGlobals ?S = Inr [\<lparr>dotGlobalLine = 0, globalName = [], globalLabelLine = 1\<rparr>]"
    unfolding splitOnGlobals_def by blast
  have 3: "segmentSource sampleClassifier ?S =
     Inr [\<lparr>name = [], body = [''mov'', ''ret''],
            epilogue = \<lparr>Start = 1, End = 2, details = ()\<rparr>\<rparr>]"
    by (simp add: string_eval decoder_eval sample_eval segment_eval)
  from 1 2 3 show ?thesis by blast
qed

section \<open>The closure loop\<close>

lemma collectLabels_eq:
  "collectLabels cls window = (definedLabels cls window, jumpTargets cls window)"
  by (induction window)
     (auto simp: definedLabels_def jumpTargets_def labelOf_def targetOf_def Let_def)

lemma getMissingLabels_eq:
  "getMissingLabels cls window =
     (if definedLabels cls window \<subseteq> jumpTargets cls window
      then Inr (jumpTargets cls window - definedLabels cls window)
      else Inl LabelNotFound)"
  by (simp add: getMissingLabels_def collectLabels_eq)

lemma resolveBodyEnd_step:
  assumes "slice src bodyStart bodyEnd = Inr window"
    and "getMissingLabels cls window = Inr missingLabels"
    and "missingLabels \<noteq> {}"
  shows "resolveBodyEnd cls src bodyStart bodyEnd =
         resolveBodyEnd cls src bodyStart
           (bodyEnd + getMissingLines cls src (bodyEnd - 1) missingLabels)"
  using assms by (subst resolveBodyEnd.simps) simp

lemma resolveBodyEnd_candidate:
  "candidateEnd cls src bodyStart bodyEnd0 bodyEnd \<Longrightarrow>
     resolveBodyEnd cls src bodyStart bodyEnd0 = resolveBodyEnd cls src bodyStart bodyEnd"
proof (induction rule: candidateEnd.induct)
  case first
  show ?case by simp
next
  case (extend bodyEnd window missingLabels)
  then show ?case by (simp add: resolveBodyEnd_step)
qed

lemma candidateEnd_trans:
  "candidateEnd cls src bodyStart b c \<Longrightarrow> candidateEnd cls src bodyStart a b \<Longrightarrow>
     candidateEnd cls src bodyStart a c"
proof (induction rule: candidateEnd.induct)
  case first
  then show ?case .
next
  case (extend bodyEnd window missingLabels)
  from extend.IH [OF extend.prems] extend.hyps(2,3,4)
  show ?case by (rule candidateEnd.extend)
qed

lemma resolveBodyEnd_Inr:
  "resolveBodyEnd cls src bodyStart bodyEnd0 = Inr bodyEnd \<Longrightarrow>
     candidateEnd cls src bodyStart bodyEnd0 bodyEnd \<and>
     (\<exists>window. slice src bodyStart bodyEnd = Inr window \<and> getMissingLabels cls window = Inr {})"
proof (induction cls src bodyStart bodyEnd0 rule: resolveBodyEnd.induct)
  case (1 cls src bodyStart bodyEnd0)
  from "1.prems" obtain window where w: "slice src bodyStart bodyEnd0 = Inr window"
    by (subst (asm) resolveBodyEnd.simps) (auto split: sum.splits)
  with "1.prems" obtain missingLabels where m: "getMissingLabels cls window = Inr missingLabels"
    by (subst (asm) resolveBodyEnd.simps) (auto split: sum.splits)
  show ?case
  proof (cases "missingLabels = {}")
    case True
    with "1.prems" w m have "bodyEnd = bodyEnd0"
      by (subst (asm) resolveBodyEnd.simps) simp
    with w m True show ?thesis by (auto intro: candidateEnd.first)
  next
    case False
    let ?next = "bodyEnd0 + getMissingLines cls src (bodyEnd0 - 1) missingLabels"
    have "resolveBodyEnd cls src bodyStart ?next = Inr bodyEnd"
      using "1.prems" resolveBodyEnd_step [OF w m False] by simp
    from "1.IH" [OF w m False this]
    have c: "candidateEnd cls src bodyStart ?next bodyEnd"
      and e: "\<exists>window. slice src bodyStart bodyEnd = Inr window \<and> getMissingLabels cls window = Inr {}"
      by simp_all
    have "candidateEnd cls src bodyStart bodyEnd0 ?next"
      using candidateEnd.first w m False by (rule candidateEnd.extend)
    from c this have "candidateEnd cls src bodyStart bodyEnd0 bodyEnd"
      by (rule candidateEnd_trans)
    with e show ?thesis by simp
  qed
qed

lemma getPrologueLines_le: "getPrologueLines cls lines epi \<le> length lines"
  by (auto simp: getPrologueLines_def findFirst_Some split: option.splits)

lemma getPrologueLines_prefix:
  assumes "i < getPrologueLines cls lines epi"
  shows "snd (stripComments cls (lines ! i)) \<or>
         isPrologueInstruction cls epi (fst (stripComments cls (lines ! i)))"
proof (cases "findFirst (\<lambda>line. let (stripped, skip) = stripComments cls line
                             in \<not> skip \<and> \<not> isPrologueInstruction cls epi stripped) lines")
  case None
  with assms have "i < length lines" by (simp add: getPrologueLines_def)
  then have "lines ! i \<in> set lines" by simp
  with None show ?thesis
    by (auto simp: findFirst_None split: prod.splits)
next
  case (Some k)
  with assms have "i < k" by (simp add: getPrologueLines_def)
  with Some show ?thesis
    by (auto simp: findFirst_Some split: prod.splits)
qed

lemma removePrologueLines_Inr:
  assumes "slice src bodyStart bodyEnd = Inr window"
  shows "removePrologueLines cls \<lparr>name = nm, body = window, epilogue = epi\<rparr> src bodyStart bodyEnd =
         Inr \<lparr>name = nm, body = drop (getPrologueLines cls window epi) window,
              epilogue = epi\<lparr>Start := Start epi - int (getPrologueLines cls window epi),
                              End := End epi - int (getPrologueLines cls window epi)\<rparr>\<rparr>"
  using assms getPrologueLines_le [of cls window epi]
  by (simp add: removePrologueLines_def Let_def slice_def)

lemma extractSubroutine_Inr:
  assumes "extractSubroutine cls lineRet src g = Inr s"
  shows "\<exists>bodyEnd window epi.
           (if disabledForTesting cls then bodyEnd = lineRet + 1
            else resolveBodyEnd cls src (globalLabelLine g + 1) (lineRet + 1) = Inr bodyEnd) \<and>
           slice src (globalLabelLine g + 1) bodyEnd = Inr window \<and>
           extractEpilogue cls window = Inr epi \<and>
           s = \<lparr>name = globalName g, body = drop (getPrologueLines cls window epi) window,
                epilogue = epi\<lparr>Start := Start epi - int (getPrologueLines cls window epi),
                                End := End epi - int (getPrologueLines cls window epi)\<rparr>\<rparr>"
proof -
  from assms obtain bodyEnd where
    be: "(if disabledForTesting cls then Inr (lineRet + 1)
          else resolveBodyEnd cls src (globalLabelLine g + 1) (lineRet + 1)) = Inr bodyEnd"
    unfolding extractSubroutine_def Let_def by (auto split: sum.splits)
  with assms obtain window where w: "slice src (globalLabelLine g + 1) bodyEnd = Inr window"
    unfolding extractSubroutine_def Let_def by (auto split: sum.splits)
  with assms be obtain epi where e: "extractEpilogue cls window = Inr epi"
    unfolding extractSubroutine_def Let_def by (auto split: sum.splits)
  from assms be w e
  have "removePrologueLines cls \<lparr>name = globalName g, body = window, epilogue = epi\<rparr>
          src (globalLabelLine g + 1) bodyEnd = Inr s"
    unfolding extractSubroutine_def Let_def by simp
  then have "s = \<lparr>name = globalName g, body = drop (getPrologueLines cls window epi) window,
                epilogue = epi\<lparr>Start := Start epi - int (getPrologueLines cls window epi),
                                End := End epi - int (getPrologueLines cls window epi)\<rparr>\<rparr>"
    unfolding removePrologueLines_Inr [OF w] by simp
  moreover have "if disabledForTesting cls then bodyEnd = lineRet + 1
            else resolveBodyEnd cls src (globalLabelLine g + 1) (lineRet + 1) = Inr bodyEnd"
    using be by (simp split: if_splits)
  ultimately show ?thesis using w e by blast
qed

lemma segmentSource_member:
  assumes "segmentSource cls src = Inr subs" and "s \<in> set subs"
  shows "\<exists>lineRet g. extractSubroutine cls lineRet src g = Inr s"
proof -
  from assms(1) obtain globals where
    "extractAll cls src (retLines src globals) = Inr subs"
    by (auto simp: segmentSource_extractAll split: sum.splits)
  then have "list_all2 (\<lambda>p s. extractSubroutine cls (fst p) src (snd p) = Inr s)
               (retLines src globals) subs"
    by (rule extractAll_Inr)
  with assms(2) obtain p where "extractSubroutine cls (fst p) src (snd p) = Inr s"
    by (auto simp: list_all2_conv_all_nth in_set_conv_nth)
  then show ?thesis by blast
qed

lemma definedLabels_drop:
  assumes "\<forall>i<n. labelOf cls (window ! i) = []" and "n \<le> length window"
  shows "definedLabels cls (drop n window) = definedLabels cls window"
proof -
  have "window = take n window @ drop n window" by simp
  then have "definedLabels cls window =
             definedLabels cls (take n window) \<union> definedLabels cls (drop n window)"
    unfolding definedLabels_def by (metis filter_append map_append set_append)
  moreover have "definedLabels cls (take n window) = {}"
    using assms by (auto simp: definedLabels_def in_set_conv_nth)
  ultimately show ?thesis by simp
qed

lemma jumpTargets_drop: "jumpTargets cls (drop n window) \<subseteq> jumpTargets cls window"
  by (auto simp: jumpTargets_def dest: in_set_dropD)

section \<open>An unmatched label stops segmentation\<close>

text \<open>
  C7. When a candidate window of the boundary resolution of a global (the closure loop
  enabled) holds the definition of a label that no jump of the same window refers to,
  \<^verbatim>\<open>getMissingLabels\<close> panics with \<open>label not found\<close>; so does the extraction of the
  subroutine, and the segmentation loop that reached the global returns no records.
\<close>

theorem unmatched_label_fatal:
  assumes "\<not> disabledForTesting cls"
    and "candidateEnd cls src (globalLabelLine g + 1) (lineRet + 1) bodyEnd"
    and "slice src (globalLabelLine g + 1) bodyEnd = Inr window"
    and "l \<in> definedLabels cls window" and "l \<notin> jumpTargets cls window"
  shows "getMissingLabels cls window = Inl LabelNotFound \<and>
         extractSubroutine cls lineRet src g = Inl LabelNotFound \<and>
         (findRet src splitBegin (regionEnd src globals) = Some lineRet \<longrightarrow>
            segmentLoop cls src splitBegin (g # globals) = Inl LabelNotFound)"
proof -
  have m: "getMissingLabels cls window = Inl LabelNotFound"
    using assms(4,5) by (auto simp: getMissingLabels_eq)
  have "resolveBodyEnd cls src (globalLabelLine g + 1) bodyEnd = Inl LabelNotFound"
    using assms(3) m by (subst resolveBodyEnd.simps) simp
  with assms(2)
  have "resolveBodyEnd cls src (globalLabelLine g + 1) (lineRet + 1) = Inl LabelNotFound"
    by (simp add: resolveBodyEnd_candidate)
  with assms(1) have e: "extractSubroutine cls lineRet src g = Inl LabelNotFound"
    by (simp add: extractSubroutine_def)
  have "segmentLoop cls src splitBegin (g # globals) = Inl LabelNotFound"
    if "findRet src splitBegin (regionEnd src globals) = Some lineRet"
    using that e by (simp add: regionEnd_def Let_def)
  with m e show ?thesis by blast
qed

theorem unmatched_label_fatal_witness:
  "extractSubroutine sampleClassifier 3
     [''.globl 1f'', ''1f:'', ''jne L1'', ''ret'', ''L1:'', ''L2:'', ''jmp L1'']
     \<lparr>dotGlobalLine = 0, globalName = ''f'', globalLabelLine = 1\<rparr> = Inl LabelNotFound \<and>
   segmentLoop sampleClassifier
     [''.globl 1f'', ''1f:'', ''jne L1'', ''ret'', ''L1:'', ''L2:'', ''jmp L1''] 0
     [\<lparr>dotGlobalLine = 0, globalName = ''f'', globalLabelLine = 1\<rparr>] = Inl LabelNotFound"
proof -
  let ?S = "[''.globl 1f'', ''1f:'', ''jne L1'', ''ret'', ''L1:'', ''L2:'', ''jmp L1'']"
  let ?g = "\<lparr>dotGlobalLine = 0, globalName = ''f'', globalLabelLine = 1\<rparr>"
  let ?W = "[''jne L1'', ''ret'', ''L1:'', ''L2:'', ''jmp L1'']"
  have d: "\<not> disabledForTesting sampleClassifier" by (simp add: sampleClassifier_def)
  have s0: "slice ?S 2 4 = Inr [''jne L1'', ''ret'']" by (simp add: slice_def)
  have m0: "getMissingLabels sampleClassifier [''jne L1'', ''ret''] = Inr {''L1''}"
    by (simp add: getMissingLabels_def sample_eval string_eval Let_def)
  have l0: "getMissingLines sampleClassifier ?S 3 {''L1''} = 3"
    by (simp add: getMissingLines_def findMissing.simps findJMP.simps sample_eval string_eval Let_def)
  from candidateEnd.extend [OF candidateEnd.first s0 m0]
  have "candidateEnd sampleClassifier ?S 2 4 (4 + getMissingLines sampleClassifier ?S (4 - 1) {''L1''})"
    by simp
  then have c': "candidateEnd sampleClassifier ?S 2 4 7"
    by (simp add: l0)
  have e1: "globalLabelLine ?g + 1 = 2" and e2: "(3::nat) + 1 = 4" by simp_all
  have c: "candidateEnd sampleClassifier ?S (globalLabelLine ?g + 1) (3 + 1) 7"
    unfolding e1 e2 by (rule c')
  have s1: "slice ?S (globalLabelLine ?g + 1) 7 = Inr ?W" by (simp add: slice_def)
  have a: "''L2'' \<in> definedLabels sampleClassifier ?W"
    by (simp add: definedLabels_def labelOf_def sample_eval string_eval Let_def)
  have b: "''L2'' \<notin> jumpTargets sampleClassifier ?W"
    by (simp add: jumpTargets_def targetOf_def sample_eval string_eval Let_def)
  have r: "findRet ?S 0 (regionEnd ?S []) = Some 3"
    by (simp add: findRet.simps regionEnd_def string_eval)
  from unmatched_label_fatal [OF d c s1 a b, where splitBegin = 0 and globals = "[]"] r
  show ?thesis by blast
qed

section \<open>Closure of the stored body\<close>

text \<open>
  C3. For every record produced by segmentation with the closure loop enabled, the
  stored body is a window of the listing less its first P lines, and every label that
  a jump on some line of the window refers to is defined on some line of the window.
  The same holds of the stored body itself: every label that a jump on some line of
  the stored body refers to is defined on some line of that body. The classifiers are
  parameters here, and this needs of them that a line which prologue stripping can
  remove (a comment-only line or a prologue instruction) defines no label.
\<close>

theorem body_closed:
  assumes "segmentSource cls src = Inr subs" and "s \<in> set subs"
    and "\<not> disabledForTesting cls"
  shows "\<exists>window P.
           body s = drop P window \<and>
           (\<forall>line\<in>set window. targetOf cls line \<noteq> [] \<longrightarrow>
              (\<exists>line'\<in>set window. labelOf cls line' = targetOf cls line)) \<and>
           ((\<forall>epi line. snd (stripComments cls line) \<or>
                        isPrologueInstruction cls epi (fst (stripComments cls line)) \<longrightarrow>
                        labelOf cls line = []) \<longrightarrow>
            (\<forall>line\<in>set (body s). targetOf cls line \<noteq> [] \<longrightarrow>
               (\<exists>line'\<in>set (body s). labelOf cls line' = targetOf cls line)))"
proof -
  have closedD: "\<forall>line\<in>set ls. targetOf cls line \<noteq> [] \<longrightarrow>
                   (\<exists>line'\<in>set ls. labelOf cls line' = targetOf cls line)"
    if "jumpTargets cls ls \<subseteq> definedLabels cls ls" for ls
  proof (intro ballI impI)
    fix line assume "line \<in> set ls" and "targetOf cls line \<noteq> []"
    then have "targetOf cls line \<in> jumpTargets cls ls"
      by (simp add: jumpTargets_def)
    with that have "targetOf cls line \<in> definedLabels cls ls" by blast
    then show "\<exists>line'\<in>set ls. labelOf cls line' = targetOf cls line"
      by (auto simp: definedLabels_def)
  qed
  from segmentSource_member [OF assms(1,2)] obtain lineRet g where
    "extractSubroutine cls lineRet src g = Inr s" by blast
  from extractSubroutine_Inr [OF this] assms(3) obtain bodyEnd window epi where
    r: "resolveBodyEnd cls src (globalLabelLine g + 1) (lineRet + 1) = Inr bodyEnd"
    and w: "slice src (globalLabelLine g + 1) bodyEnd = Inr window"
    and b: "body s = drop (getPrologueLines cls window epi) window"
    by auto
  from resolveBodyEnd_Inr [OF r] w have "getMissingLabels cls window = Inr {}" by auto
  then have closed: "jumpTargets cls window \<subseteq> definedLabels cls window"
    by (auto simp: getMissingLabels_eq split: if_splits)
  let ?P = "getPrologueLines cls window epi"
  have stored: "\<forall>line\<in>set (body s). targetOf cls line \<noteq> [] \<longrightarrow>
                  (\<exists>line'\<in>set (body s). labelOf cls line' = targetOf cls line)"
    if c: "\<forall>epi line. snd (stripComments cls line) \<or>
                       isPrologueInstruction cls epi (fst (stripComments cls line)) \<longrightarrow>
                       labelOf cls line = []"
  proof -
    have "\<forall>i<?P. labelOf cls (window ! i) = []"
      using getPrologueLines_prefix [of _ cls window epi] c by blast
    then have "definedLabels cls (drop ?P window) = definedLabels cls window"
      using getPrologueLines_le by (rule definedLabels_drop)
    with closed jumpTargets_drop [of cls ?P window]
    have "jumpTargets cls (body s) \<subseteq> definedLabels cls (body s)"
      by (simp add: b)
    then show ?thesis by (rule closedD)
  qed
  from b closedD [OF closed] stored show ?thesis by blast
qed

theorem body_closed_witness:
  "body (hd (projr (segmentSource sampleClassifier
     [''.globl 1f'', ''1f:'', ''push'', ''jne L1'', ''ret'', ''L1:'', ''mov'', ''jmp L1'', ''nop'']))) =
     [''jne L1'', ''ret'', ''L1:'', ''mov'', ''jmp L1''] \<and>
   (\<exists>line'\<in>set [''jne L1'', ''ret'', ''L1:'', ''mov'', ''jmp L1''].
      labelOf sampleClassifier line' = targetOf sampleClassifier ''jne L1'')"
proof -
  let ?S = "[''.globl 1f'', ''1f:'', ''push'', ''jne L1'', ''ret'', ''L1:'', ''mov'', ''jmp L1'', ''nop'']"
  let ?s = "\<lparr>name = ''f'', body = [''jne L1'', ''ret'', ''L1:'', ''mov'', ''jmp L1''],
             epilogue = \<lparr>Start = 1, End = 2, details = ()\<rparr>\<rparr>"
  have r: "segmentSource sampleClassifier ?S = Inr [?s]"
    by (simp add: string_eval decoder_eval sample_eval segment_eval)
  have d: "\<not> disabledForTesting sampleClassifier" by (simp add: sampleClassifier_def)
  have c: "\<forall>epi line. snd (stripComments sampleClassifier line) \<or>
             isPrologueInstruction sampleClassifier epi (fst (stripComments sampleClassifier line)) \<longrightarrow>
             labelOf sampleClassifier line = []"
  proof (intro allI impI)
    fix epi :: "unit Epilogue" and line
    assume "snd (stripComments sampleClassifier line) \<or>
             isPrologueInstruction sampleClassifier epi (fst (stripComments sampleClassifier line))"
    then show "labelOf sampleClassifier line = []"
      by (cases "fst (sampleStrip line)")
         (auto simp: labelOf_def sample_eval Let_def split: if_splits)
  qed
  have t: "targetOf sampleClassifier ''jne L1'' \<noteq> []"
    by (simp add: targetOf_def sample_eval string_eval Let_def)
  from body_closed [OF r _ d, of ?s] c
  have "\<forall>line\<in>set (body ?s). targetOf sampleClassifier line \<noteq> [] \<longrightarrow>
          (\<exists>line'\<in>set (body ?s). labelOf sampleClassifier line' = targetOf sampleClassifier line)"
    by auto
  with t
  have "\<exists>line'\<in>set (body ?s). labelOf sampleClassifier line' = targetOf sampleClassifier ''jne L1''"
    by simp
  with r show ?thesis by simp
qed

section \<open>Prologue stripping and the epilogue range\<close>

lemma epilogueStartFrom_le_Suc: "epilogueStartFrom cls src n \<le> int n + 1"
  by (induction n) auto

lemma epilogueStartFrom_le:
  "isEpilogueInstruction cls (src ! n) \<Longrightarrow> epilogueStartFrom cls src n \<le> int n"
proof (cases n)
  case 0
  assume "isEpilogueInstruction cls (src ! n)"
  with 0 show ?thesis by simp
next
  case (Suc m)
  assume "isEpilogueInstruction cls (src ! n)"
  with Suc epilogueStartFrom_le_Suc [of cls src m] show ?thesis by simp
qed

lemma extractEpilogue_Inr:
  assumes "extractEpilogue cls window = Inr epi"
  shows "\<exists>r. findFirst isRet window = Some r \<and> End epi = int r + 1 \<and>
             Start epi = epilogueStartFrom cls window r"
  using assms
  by (auto simp: extractEpilogue_def extractEpilogueInfo_def split: option.splits)

text \<open>
  C9. Prologue stripping removes exactly the first P lines of the stored body, each of
  them a comment-only line or a prologue-shaped instruction, so that P does not extend
  past the first instruction that is not prologue-shaped; it shifts the start and the
  end of the epilogue by \<open>-P\<close> and leaves the name, the other lines and their order, and
  the rest of the epilogue as they are. Before the shift the end of the epilogue is
  one past the line of the return instruction, and its start is at most that line. The
  classifiers are parameters here; the bound on the start needs of them that a return
  instruction is epilogue-shaped.
\<close>

theorem removePrologueLines_frame:
  assumes "slice src bodyStart bodyEnd = Inr window"
    and "extractEpilogue cls window = Inr epi"
    and "\<forall>line. isRet line \<longrightarrow> isEpilogueInstruction cls line"
    and "P = getPrologueLines cls window epi"
  shows "removePrologueLines cls \<lparr>name = nm, body = window, epilogue = epi\<rparr> src bodyStart bodyEnd =
           Inr \<lparr>name = nm, body = drop P window,
                epilogue = epi\<lparr>Start := Start epi - int P, End := End epi - int P\<rparr>\<rparr> \<and>
         P \<le> length window \<and>
         (\<forall>i<P. snd (stripComments cls (window ! i)) \<or>
                 isPrologueInstruction cls epi (fst (stripComments cls (window ! i)))) \<and>
         (\<exists>r. findFirst isRet window = Some r \<and> End epi = int r + 1 \<and> Start epi \<le> int r)"
proof (intro conjI)
  show "removePrologueLines cls \<lparr>name = nm, body = window, epilogue = epi\<rparr> src bodyStart bodyEnd =
           Inr \<lparr>name = nm, body = drop P window,
                epilogue = epi\<lparr>Start := Start epi - int P, End := End epi - int P\<rparr>\<rparr>"
    unfolding assms(4) using assms(1) by (rule removePrologueLines_Inr)
  show "P \<le> length window"
    unfolding assms(4) by (rule getPrologueLines_le)
  show "\<forall>i<P. snd (stripComments cls (window ! i)) \<or>
               isPrologueInstruction cls epi (fst (stripComments cls (window ! i)))"
    unfolding assms(4) by (auto dest: getPrologueLines_prefix)
  from extractEpilogue_Inr [OF assms(2)] obtain r where
    r: "findFirst isRet window = Some r" and e: "End epi = int r + 1"
    and s: "Start epi = epilogueStartFrom cls window r"
    by blast
  from r have "isRet (window ! r)" by (simp add: findFirst_Some)
  with assms(3) have "isEpilogueInstruction cls (window ! r)" by simp
  then have "Start epi \<le> int r" unfolding s by (rule epilogueStartFrom_le)
  with r e show "\<exists>r. findFirst isRet window = Some r \<and> End epi = int r + 1 \<and> Start epi \<le> int r"
    by blast
qed

theorem removePrologueLines_frame_witness:
  "removePrologueLines sampleClassifier
     \<lparr>name = ''f'', body = [''push'', ''mov'', ''pop'', ''ret''],
      epilogue = \<lparr>Start = 2, End = 4, details = ()\<rparr>\<rparr>
     [''.globl 1f'', ''1f:'', ''push'', ''mov'', ''pop'', ''ret''] 2 6 =
   Inr \<lparr>name = ''f'', body = [''mov'', ''pop'', ''ret''],
        epilogue = \<lparr>Start = 1, End = 3, details = ()\<rparr>\<rparr>"
proof -
  let ?S = "[''.globl 1f'', ''1f:'', ''push'', ''mov'', ''pop'', ''ret'']"
  let ?W = "[''push'', ''mov'', ''pop'', ''ret'']"
  let ?e = "\<lparr>Start = 2, End = 4, details = ()\<rparr>"
  have w: "slice ?S 2 6 = Inr ?W" by (simp add: slice_def)
  have e: "extractEpilogue sampleClassifier ?W = Inr ?e"
    by (simp add: extractEpilogue_def extractEpilogueInfo_def sample_eval string_eval)
  have c: "\<forall>line. isRet line \<longrightarrow> isEpilogueInstruction sampleClassifier line"
    by (simp add: sampleClassifier_def)
  have p: "1 = getPrologueLines sampleClassifier ?W ?e"
    by (simp add: getPrologueLines_def sample_eval string_eval)
  from removePrologueLines_frame [OF w e c p, of "''f''"] show ?thesis by simp
qed

section \<open>The lines that \<^verbatim>\<open>getMissingLines\<close> adds\<close>

lemma rawLabels_iff:
  "l \<in> rawLabels cls src a b \<longleftrightarrow> l \<noteq> [] \<and> (\<exists>i. a \<le> i \<and> i < b \<and> fixLabels cls (src ! i) = l)"
  by (auto simp: rawLabels_def)

lemma rawLabels_split:
  "a < b \<Longrightarrow> rawLabels cls src a b = rawLabels cls src a (Suc a) \<union> rawLabels cls src (Suc a) b"
proof (intro set_eqI iffI)
  fix l assume "a < b" and "l \<in> rawLabels cls src a b"
  then obtain i where i: "l \<noteq> []" "a \<le> i" "i < b" "fixLabels cls (src ! i) = l"
    by (auto simp: rawLabels_iff)
  show "l \<in> rawLabels cls src a (Suc a) \<union> rawLabels cls src (Suc a) b"
  proof (cases "i = a")
    case True
    with i show ?thesis by (auto simp: rawLabels_iff)
  next
    case False
    with i have "Suc a \<le> i" by simp
    with i show ?thesis by (auto simp: rawLabels_iff)
  qed
next
  fix l assume "a < b" and "l \<in> rawLabels cls src a (Suc a) \<union> rawLabels cls src (Suc a) b"
  then show "l \<in> rawLabels cls src a b"
    by (auto simp: rawLabels_iff less_Suc_eq_le intro: Suc_leD)
qed

lemma rawLabels_one:
  "rawLabels cls src a (Suc a) = (if fixLabels cls (src ! a) \<noteq> [] then {fixLabels cls (src ! a)} else {})"
  by (auto simp: rawLabels_iff less_Suc_eq_le)

lemma rawLabels_empty: "rawLabels cls src a a = {}"
  by (auto simp: rawLabels_iff)

lemma findMissing_unfold:
  assumes "missingLabels \<noteq> {}" and "a < length src"
  shows "findMissing cls src a missingLabels =
         findMissing cls src (Suc a) (missingLabels - rawLabels cls src a (Suc a))"
proof -
  have "(if fixLabels cls (src ! a) \<noteq> [] \<and> fixLabels cls (src ! a) \<in> missingLabels
         then missingLabels - {fixLabels cls (src ! a)} else missingLabels) =
        missingLabels - rawLabels cls src a (Suc a)"
    by (auto simp: rawLabels_one)
  with assms show ?thesis
    by (subst findMissing.simps) (simp add: Let_def)
qed

lemma findMissing_done: "findMissing cls src a {} = a"
  by (subst findMissing.simps) simp

lemma findMissing_found:
  assumes "a \<le> k" and "k < length src"
    and "missingLabels \<subseteq> rawLabels cls src a (Suc k)"
    and "\<not> missingLabels \<subseteq> rawLabels cls src a k"
  shows "findMissing cls src a missingLabels = Suc k"
  using assms
proof (induction "k - a" arbitrary: a missingLabels)
  case 0
  then have ka: "k = a" by simp
  from "0.prems"(4) have ne: "missingLabels \<noteq> {}" by auto
  have e: "missingLabels - rawLabels cls src a (Suc a) = {}"
    using "0.prems"(3) ka by auto
  have "findMissing cls src a missingLabels =
        findMissing cls src (Suc a) (missingLabels - rawLabels cls src a (Suc a))"
    using ne "0.prems"(2) ka by (intro findMissing_unfold) simp_all
  also have "\<dots> = Suc a" unfolding e by (rule findMissing_done)
  finally show ?case using ka by simp
next
  case (Suc d)
  then have lt: "a < k" by simp
  with Suc.prems have al: "a < length src" by simp
  from Suc.prems(4) have ne: "missingLabels \<noteq> {}" by auto
  let ?m = "missingLabels - rawLabels cls src a (Suc a)"
  have s1: "rawLabels cls src a (Suc k) = rawLabels cls src a (Suc a) \<union> rawLabels cls src (Suc a) (Suc k)"
    using lt by (intro rawLabels_split) simp
  have s2: "rawLabels cls src a k = rawLabels cls src a (Suc a) \<union> rawLabels cls src (Suc a) k"
    using lt by (intro rawLabels_split)
  have 1: "?m \<subseteq> rawLabels cls src (Suc a) (Suc k)"
    using Suc.prems(3) s1 by auto
  have 2: "\<not> ?m \<subseteq> rawLabels cls src (Suc a) k"
    using Suc.prems(4) s2 by auto
  have "d = k - Suc a" using Suc.hyps(2) by simp
  from Suc.hyps(1) [OF this _ Suc.prems(2) 1 2] lt
  have "findMissing cls src (Suc a) ?m = Suc k" by simp
  with ne al show ?case by (simp add: findMissing_unfold)
qed


lemma findJMP_found:
  assumes "a \<le> j" and "j < length src" and "isJMP cls (src ! j)"
    and "\<forall>i. a \<le> i \<and> i < j \<longrightarrow> \<not> isJMP cls (src ! i)"
  shows "findJMP cls src a = j"
  using assms
proof (induction "j - a" arbitrary: a)
  case 0
  then have "a = j" by simp
  with "0.prems" show ?case
    by (subst findJMP.simps) (simp add: isJMP_def)
next
  case (Suc d)
  then have lt: "a < j" by simp
  with Suc.prems have n: "\<not> isJMP cls (src ! a)" and al: "a < length src" by simp_all
  have "d = j - Suc a" using Suc.hyps(2) by simp
  from Suc.hyps(1) [OF this _ Suc.prems(2,3)] lt Suc.prems(4)
  have "findJMP cls src (Suc a) = j" by simp
  with n al show ?case
    by (subst findJMP.simps) (simp add: isJMP_def)
qed


lemma getMissingLines_closing:
  assumes "a \<le> k" and "k < j" and "j < length src"
    and "missingLabels \<subseteq> rawLabels cls src a (Suc k)"
    and "\<not> missingLabels \<subseteq> rawLabels cls src a k"
    and "isJMP cls (src ! j)"
    and "\<forall>i. k < i \<and> i < j \<longrightarrow> \<not> isJMP cls (src ! i)"
  shows "getMissingLines cls src a missingLabels = j - a"
proof -
  have "findMissing cls src a missingLabels = Suc k"
    using assms(1,2,3,4,5) by (intro findMissing_found) simp_all
  moreover have "findJMP cls src (Suc k) = j"
    using assms(2,3,6,7) by (intro findJMP_found) auto
  ultimately show ?thesis by (simp add: getMissingLines_def)
qed


lemma retLines_member:
  "(lineRet, g) \<in> set (retLines src globals) \<Longrightarrow>
     \<exists>rest. findRet src (dotGlobalLine g) (regionEnd src rest) = Some lineRet"
proof (induction globals)
  case Nil
  then show ?case by simp
next
  case (Cons g' globals)
  then show ?case
    by (cases "findRet src (dotGlobalLine g') (regionEnd src globals)") auto
qed

section \<open>The body range\<close>

text \<open>
  C8, as amended. Segmentation extracts a subroutine for a global at the first return
  instruction found by scanning forward from the global's directive line. With the
  closure loop enabled, the body range of the record is \<open>[labelLine+1, bodyEnd)\<close>, less
  the prologue lines, for a \<open>bodyEnd\<close> that the loop reaches from one line past that
  return instruction and whose window has no missing label. An iteration whose window
  has missing labels, all met by the forward scan from the last line of the window, the
  last of them on line \<open>k\<close>, sets \<open>bodyEnd\<close> to one line past the first unconditional
  jump after line \<open>k\<close>, when the listing has one.
\<close>

theorem body_range:
  "((lineRet, g) \<in> set (retLines src globals) \<longrightarrow>
      dotGlobalLine g \<le> lineRet \<and> isRet (src ! lineRet) \<and>
      (\<forall>i. dotGlobalLine g \<le> i \<and> i < lineRet \<longrightarrow> \<not> isRet (src ! i))) \<and>
   (\<not> disabledForTesting cls \<and> extractSubroutine cls lineRet src g = Inr s \<longrightarrow>
      (\<exists>bodyEnd window epi.
         candidateEnd cls src (globalLabelLine g + 1) (lineRet + 1) bodyEnd \<and>
         slice src (globalLabelLine g + 1) bodyEnd = Inr window \<and>
         getMissingLabels cls window = Inr {} \<and>
         extractEpilogue cls window = Inr epi \<and>
         body s = drop (getPrologueLines cls window epi) window)) \<and>
   (0 < bodyEnd \<and> bodyEnd - 1 \<le> k \<and> k < j \<and> j < length src \<and>
    missingLabels \<subseteq> rawLabels cls src (bodyEnd - 1) (Suc k) \<and>
    \<not> missingLabels \<subseteq> rawLabels cls src (bodyEnd - 1) k \<and>
    isJMP cls (src ! j) \<and> (\<forall>i. k < i \<and> i < j \<longrightarrow> \<not> isJMP cls (src ! i)) \<longrightarrow>
      bodyEnd + getMissingLines cls src (bodyEnd - 1) missingLabels = Suc j)"
proof (intro conjI impI)
  assume "(lineRet, g) \<in> set (retLines src globals)"
  then obtain rest where "findRet src (dotGlobalLine g) (regionEnd src rest) = Some lineRet"
    by (auto dest: retLines_member)
  from findRet_Some [OF this]
  show "dotGlobalLine g \<le> lineRet" and "isRet (src ! lineRet)"
    and "\<forall>i. dotGlobalLine g \<le> i \<and> i < lineRet \<longrightarrow> \<not> isRet (src ! i)"
    by simp_all
next
  assume a: "\<not> disabledForTesting cls \<and> extractSubroutine cls lineRet src g = Inr s"
  then have "extractSubroutine cls lineRet src g = Inr s" by simp
  from extractSubroutine_Inr [OF this] a obtain bodyEnd window epi where
    r: "resolveBodyEnd cls src (globalLabelLine g + 1) (lineRet + 1) = Inr bodyEnd"
    and w: "slice src (globalLabelLine g + 1) bodyEnd = Inr window"
    and e: "extractEpilogue cls window = Inr epi"
    and b: "body s = drop (getPrologueLines cls window epi) window"
    by auto
  from resolveBodyEnd_Inr [OF r] w
  have "candidateEnd cls src (globalLabelLine g + 1) (lineRet + 1) bodyEnd"
    and "getMissingLabels cls window = Inr {}"
    by auto
  with w e b show "\<exists>bodyEnd window epi.
         candidateEnd cls src (globalLabelLine g + 1) (lineRet + 1) bodyEnd \<and>
         slice src (globalLabelLine g + 1) bodyEnd = Inr window \<and>
         getMissingLabels cls window = Inr {} \<and>
         extractEpilogue cls window = Inr epi \<and>
         body s = drop (getPrologueLines cls window epi) window"
    by blast
next
  assume a: "0 < bodyEnd \<and> bodyEnd - 1 \<le> k \<and> k < j \<and> j < length src \<and>
    missingLabels \<subseteq> rawLabels cls src (bodyEnd - 1) (Suc k) \<and>
    \<not> missingLabels \<subseteq> rawLabels cls src (bodyEnd - 1) k \<and>
    isJMP cls (src ! j) \<and> (\<forall>i. k < i \<and> i < j \<longrightarrow> \<not> isJMP cls (src ! i))"
  then have "getMissingLines cls src (bodyEnd - 1) missingLabels = j - (bodyEnd - 1)"
    by (intro getMissingLines_closing [where k = k]) simp_all
  moreover from a have "bodyEnd \<le> j" by arith
  ultimately show "bodyEnd + getMissingLines cls src (bodyEnd - 1) missingLabels = Suc j"
    using a by simp
qed

theorem body_range_witness:
  "isRet ([''.globl 1f'', ''1f:'', ''jne L1'', ''ret'', ''L1:'', ''mov'', ''jmp L1'', ''nop''] ! 3) \<and>
   4 + getMissingLines sampleClassifier
         [''.globl 1f'', ''1f:'', ''jne L1'', ''ret'', ''L1:'', ''mov'', ''jmp L1'', ''nop'']
         (4 - 1) {''L1''} = Suc 6"
proof -
  let ?S = "[''.globl 1f'', ''1f:'', ''jne L1'', ''ret'', ''L1:'', ''mov'', ''jmp L1'', ''nop'']"
  let ?g = "\<lparr>dotGlobalLine = 0, globalName = ''f'', globalLabelLine = 1\<rparr>"
  note t = body_range [where src = ?S and cls = sampleClassifier and g = ?g and lineRet = 3
      and globals = "[?g]" and bodyEnd = 4 and k = 4 and j = 6 and missingLabels = "{''L1''}"]
  have "(3, ?g) \<in> set (retLines ?S [?g])"
    by (simp add: regionEnd_def findRet.simps string_eval)
  with t have 1: "isRet (?S ! 3)" by blast
  have a: "{''L1''} \<subseteq> rawLabels sampleClassifier ?S (4 - 1) (Suc 4)"
    by (simp add: rawLabels_def upt_conv_Cons sample_eval)
  have b: "\<not> {''L1''} \<subseteq> rawLabels sampleClassifier ?S (4 - 1) 4"
    by (simp add: rawLabels_def upt_conv_Cons sample_eval)
  have c: "isJMP sampleClassifier (?S ! 6)"
    by (simp add: isJMP_def sample_eval string_eval)
  have d: "\<forall>i. 4 < i \<and> i < 6 \<longrightarrow> \<not> isJMP sampleClassifier (?S ! i)"
  proof (intro allI impI)
    fix i :: nat assume "4 < i \<and> i < 6"
    then have "i = 5" by arith
    then show "\<not> isJMP sampleClassifier (?S ! i)"
      by (simp add: isJMP_def sample_eval string_eval)
  qed
  have "(0::nat) < 4 \<and> (4::nat) - 1 \<le> 4 \<and> (4::nat) < 6 \<and> 6 < length ?S" by simp
  with a b c d t
  have 2: "4 + getMissingLines sampleClassifier ?S (4 - 1) {''L1''} = Suc 6" by blast
  from 1 2 show ?thesis by (rule conjI)
qed

text \<open>
  In the first listing a return instruction stands between the directive and the
  label: the design starts the body range at line 3 with \<open>bodyEnd = 5\<close>, and the code,
  which finds the return on line 1, slices \<^verbatim>\<open>src[3:2]\<close> and panics. In the second the
  label stands before the directive: the design's first \<open>bodyEnd\<close> is 3 and its window
  is closed, and the code takes the return on line 4 and stores the lines 1 to 4.
\<close>

theorem body_range_counterexample:
  "segmentSource sampleClassifier [''.globl 1f'', ''ret'', ''1f:'', ''mov'', ''ret''] = Inl OutOfRange \<and>
   spec_initialBodyEnd [''.globl 1f'', ''ret'', ''1f:'', ''mov'', ''ret''] 2 = Some 5 \<and>
   segmentSource sampleClassifier [''1f:'', ''mov'', ''ret'', ''.globl 1f'', ''ret''] =
     Inr [\<lparr>name = ''f'', body = [''mov'', ''ret'', ''.globl 1f'', ''ret''],
            epilogue = \<lparr>Start = 1, End = 2, details = ()\<rparr>\<rparr>] \<and>
   spec_initialBodyEnd [''1f:'', ''mov'', ''ret'', ''.globl 1f'', ''ret''] 0 = Some 3 \<and>
   getMissingLabels sampleClassifier [''mov'', ''ret''] = Inr {}"
  by (simp add: string_eval decoder_eval sample_eval segment_eval spec_initialBodyEnd_def)

section \<open>An extension scan that runs off the listing\<close>



end
